theory Spec2Isabelle
  imports Main "HOL-Library.AList"
begin

section \<open>Frame parser (\<^verbatim>\<open>SSEParser\<close> in \<^verbatim>\<open>web/src/lib/mcp-client.ts\<close>)\<close>

text \<open>
  Text is a list of code units; the model covers the code units below 256, which is what
  \<^typ>\<open>char\<close> holds. \<^verbatim>\<open>String.prototype.trim\<close> strips white space and line terminators
  at both ends; in this range these are TAB, LF, VT, FF, CR, SPACE and NBSP.
\<close>

definition js_whitespace :: "char \<Rightarrow> bool" where
  "js_whitespace c \<longleftrightarrow>
     c \<in> {CHR 0x09, CHR 0x0A, CHR 0x0B, CHR 0x0C, CHR 0x0D, CHR 0x20, CHR 0xA0}"

definition trim :: "string \<Rightarrow> string" where
  "trim s = rev (dropWhile js_whitespace (rev (dropWhile js_whitespace s)))"

definition startsWith :: "string \<Rightarrow> string \<Rightarrow> bool" where
  "startsWith s pre \<longleftrightarrow> take (length pre) s = pre"

definition substring :: "string \<Rightarrow> nat \<Rightarrow> string" where
  "substring s n = drop n s"

text \<open>
  \<^verbatim>\<open>s.split("\n")\<close>: the pieces between the newlines, in order. The result is never
  empty: the empty string splits into one empty piece.
\<close>

fun split_nl :: "string \<Rightarrow> string list" where
  "split_nl [] = [[]]"
| "split_nl (c # cs) =
     (if c = CHR 0x0A then [] # split_nl cs
      else (case split_nl cs of [] \<Rightarrow> [[c]] | l # ls \<Rightarrow> (c # l) # ls))"

record SSEParser =
  buffer :: string

definition new_SSEParser :: SSEParser where
  "new_SSEParser = \<lparr>buffer = []\<rparr>"

text \<open>
  The \<^verbatim>\<open>for (const line of lines)\<close> loop of \<^verbatim>\<open>parse\<close>. Its first argument is the local
  variable \<^verbatim>\<open>currentData\<close>; the result lists the arguments of the \<^verbatim>\<open>onMessage\<close> calls in
  the order they are made. An empty string is falsy, so \<^verbatim>\<open>if (currentData)\<close> is the test
  for a non-empty payload.
\<close>

fun parse_lines :: "string \<Rightarrow> string list \<Rightarrow> string list" where
  "parse_lines currentData [] = []"
| "parse_lines currentData (line # lines) =
     (let trimmed = trim line in
      if trimmed = [] then
        (if currentData \<noteq> [] then currentData # parse_lines [] lines
         else parse_lines currentData lines)
      else if startsWith trimmed ''data:'' then
        parse_lines (trim (substring trimmed 5)) lines
      else parse_lines currentData lines)"

text \<open>
  \<^verbatim>\<open>parse(chunk)\<close>: append the chunk to the buffer, split at newlines, keep the last piece
  as the new buffer (\<^verbatim>\<open>lines.pop() || ""\<close>) and run the loop over the other pieces with
  \<^verbatim>\<open>currentData\<close> starting empty. The result is the parser after the call and the
  \<^verbatim>\<open>onMessage\<close> calls made during it.
\<close>

definition parse :: "SSEParser \<Rightarrow> string \<Rightarrow> SSEParser \<times> string list" where
  "parse p chunk =
     (let lines = split_nl (buffer p @ chunk) in
      (p\<lparr>buffer := last lines\<rparr>, parse_lines [] (butlast lines)))"

text \<open>
  The read loop of \<^verbatim>\<open>startSSEStream\<close> hands each decoded chunk to \<^verbatim>\<open>parser.parse\<close> in
  turn; \<open>feed\<close> runs it over the chunks a stream delivers and collects the callback calls.
\<close>

fun feed :: "SSEParser \<Rightarrow> string list \<Rightarrow> SSEParser \<times> string list" where
  "feed p [] = (p, [])"
| "feed p (chunk # chunks) =
     (let (p', out) = parse p chunk; (p'', out') = feed p' chunks in (p'', out @ out'))"

text \<open>A line is data-prefixed when its trimmed text starts with \<^verbatim>\<open>data:\<close>; its payload
  is what \<^verbatim>\<open>parse\<close> stores in \<^verbatim>\<open>currentData\<close> for it.\<close>

definition is_data_line :: "string \<Rightarrow> bool" where
  "is_data_line line \<longleftrightarrow> startsWith (trim line) ''data:''"

definition payload :: "string \<Rightarrow> string" where
  "payload line = trim (substring (trim line) 5)"

section \<open>JavaScript values and decimal text\<close>

text \<open>
  Payloads are untyped at run time (the TypeScript casts are not checked), so they are
  modelled as JavaScript values. A number is NaN, an infinity, or a finite double given by
  an integer mantissa and a binary exponent.
\<close>

datatype jsnum = NaN | PosInfinity | NegInfinity | Finite int int

datatype jsval =
    Undefined
  | Null
  | Bool bool
  | Num jsnum
  | Str string
  | Arr "jsval list"
  | Obj "(string \<times> jsval) list"

text \<open>Truthiness, as used by \<^verbatim>\<open>if (x)\<close>, \<^verbatim>\<open>!x\<close> and \<^verbatim>\<open>x || y\<close>.\<close>

fun truthy :: "jsval \<Rightarrow> bool" where
  "truthy Undefined = False"
| "truthy Null = False"
| "truthy (Bool b) = b"
| "truthy (Num NaN) = False"
| "truthy (Num (Finite m e)) = (m \<noteq> 0)"
| "truthy (Num _) = True"
| "truthy (Str s) = (s \<noteq> [])"
| "truthy (Arr _) = True"
| "truthy (Obj _) = True"

text \<open>
  \<^verbatim>\<open>v.name\<close> for a value that is neither \<^verbatim>\<open>undefined\<close> nor \<^verbatim>\<open>null\<close>, for the property
  names this program reads (\<^verbatim>\<open>error\<close>, \<^verbatim>\<open>message\<close>, \<^verbatim>\<open>code\<close>, \<^verbatim>\<open>result\<close>, \<^verbatim>\<open>tools\<close>,
  \<^verbatim>\<open>id\<close>, \<^verbatim>\<open>content\<close>, \<^verbatim>\<open>text\<close>, \<^verbatim>\<open>email\<close>, \<^verbatim>\<open>ok\<close>): an object yields its member or
  \<^verbatim>\<open>undefined\<close>, every other value yields \<^verbatim>\<open>undefined\<close>.
\<close>

fun js_get :: "jsval \<Rightarrow> string \<Rightarrow> jsval" where
  "js_get (Obj members) name = (case map_of members name of None \<Rightarrow> Undefined | Some v \<Rightarrow> v)"
| "js_get _ name = Undefined"

text \<open>The decimal text of a non-negative integer, as a template literal renders it.\<close>

definition digit :: "nat \<Rightarrow> char" where
  "digit d = ''0123456789'' ! d"

fun show_nat :: "nat \<Rightarrow> string" where
  "show_nat n = (if n < 10 then [digit n] else show_nat (n div 10) @ [digit (n mod 10)])"

declare show_nat.simps [simp del]

section \<open>Protocol client (\<^verbatim>\<open>MCPClient\<close> in \<^verbatim>\<open>web/src/lib/mcp-client.ts\<close>)\<close>

text \<open>
  Errors are values. Each constructor stands for one \<^verbatim>\<open>new Error(...)\<close> of the source and
  keeps the values its message is built from:
  \<^item> \<open>AlreadyConnected\<close>: \<^verbatim>\<open>Already connected to MCP server\<close>;
  \<^item> \<open>NotConnected\<close>: \<^verbatim>\<open>Not connected to MCP server. Call connect() first.\<close>;
  \<^item> \<open>HealthCheckFailed status statusText\<close>;
  \<^item> \<open>InitializeFailed message code\<close>, \<open>ListToolsFailed message code\<close>;
  \<^item> \<open>RequestTimeout ms\<close>: \<^verbatim>\<open>Request timeout after ${ms}ms\<close>;
  \<^item> \<open>HttpError status statusText\<close>;
  \<^item> \<open>ConnectionClosed\<close>: \<^verbatim>\<open>Connection closed\<close>;
  \<^item> \<open>TypeError v name\<close>: the run-time error of reading \<open>name\<close> from \<^verbatim>\<open>undefined\<close> or
    \<^verbatim>\<open>null\<close>;
  \<^item> \<open>Thrown msg\<close>: any other error raised by \<^verbatim>\<open>fetch\<close> or \<^verbatim>\<open>response.json()\<close>.
\<close>

datatype mcp_error =
    AlreadyConnected
  | NotConnected
  | HealthCheckFailed nat string
  | InitializeFailed jsval jsval
  | ListToolsFailed jsval jsval
  | RequestTimeout nat
  | HttpError nat string
  | ConnectionClosed
  | TypeError jsval string
  | Thrown string

text \<open>
  What a \<^verbatim>\<open>fetch\<close> call can come to: a response (whose \<^verbatim>\<open>json()\<close> yields a value or
  raises), a rejection with an \<^verbatim>\<open>AbortError\<close> (the signal of \<^verbatim>\<open>fetchWithTimeout\<close> fired),
  or a rejection with another error.
\<close>

record http_response =
  ok :: bool
  status :: nat
  statusText :: string
  json :: "mcp_error + jsval"

datatype fetch_result = Responds http_response | Aborts | Fails string

record JSONRPCRequest =
  req_id :: string
  rpc_method :: string
  params :: jsval

text \<open>
  Promises, timers and abort controllers live in stores indexed by handles, so that the
  closures of the source (\<^verbatim>\<open>resolve\<close>, \<^verbatim>\<open>reject\<close>, the timer callback, the \<^verbatim>\<open>catch\<close>
  handler) can be told apart from the table entries that alias them. A pending-table
  entry holds the handle of its promise (its \<^verbatim>\<open>resolve\<close> and \<^verbatim>\<open>reject\<close>) and of its timer.
  A promise settles once: settling a settled promise changes nothing.
\<close>

record PendingRequest =
  promise :: nat
  timeout :: nat

record timer_task =
  due :: nat
  request :: string
  rejects :: nat

datatype promise_state = Unsettled | Resolved jsval | Rejected mcp_error

text \<open>
  The first four fields are the mutable fields of the class; \<^verbatim>\<open>pendingRequests\<close> is a
  \<^verbatim>\<open>Map\<close>, kept as an association list in insertion order. The others are the part of the
  run time the client touches: the clock read by \<^verbatim>\<open>Date.now()\<close> (milliseconds), the promise
  store, the active timers, the POSTs in flight (keyed by the promise of their request,
  with the request and the timer that the \<^verbatim>\<open>catch\<close> handler of \<^verbatim>\<open>sendRequest\<close> captured),
  the abort flags of the controllers created, and the controllers whose event stream has
  been started. \<^verbatim>\<open>requestIdCounter\<close> is a JavaScript number that only ever counts up by
  one; it is exact below \<open>2^53\<close> and modelled as a natural number.
\<close>

record MCPClient =
  connected :: bool
  requestIdCounter :: nat
  pendingRequests :: "(string \<times> PendingRequest) list"
  sseController :: "nat option"
  now :: nat
  promises :: "nat \<Rightarrow> promise_state"
  next_promise :: nat
  timers :: "nat \<Rightarrow> timer_task option"
  next_timer :: nat
  posts :: "nat \<Rightarrow> (JSONRPCRequest \<times> nat) option"
  aborted :: "nat \<Rightarrow> bool"
  next_controller :: nat
  streams :: "nat list"

definition connectTimeout :: nat where
  "connectTimeout = 10000"

definition requestTimeout :: nat where
  "requestTimeout = 10000"

text \<open>A client just constructed, at clock reading \<open>t\<close>.\<close>

definition new_MCPClient :: "nat \<Rightarrow> MCPClient" where
  "new_MCPClient t =
     \<lparr>connected = False, requestIdCounter = 0, pendingRequests = [], sseController = None,
      now = t, promises = (\<lambda>_. Unsettled), next_promise = 0, timers = (\<lambda>_. None),
      next_timer = 0, posts = (\<lambda>_. None), aborted = (\<lambda>_. False), next_controller = 0,
      streams = []\<rparr>"

text \<open>Reading a property raises a \<^verbatim>\<open>TypeError\<close> on \<^verbatim>\<open>undefined\<close> and \<^verbatim>\<open>null\<close>.\<close>

definition get_prop :: "jsval \<Rightarrow> string \<Rightarrow> mcp_error + jsval" where
  "get_prop v name =
     (if v = Undefined \<or> v = Null then Inl (TypeError v name) else Inr (js_get v name))"

text \<open>\<^verbatim>\<open>resolve(v)\<close> and \<^verbatim>\<open>reject(e)\<close> of promise \<open>p\<close>.\<close>

definition settle :: "nat \<Rightarrow> promise_state \<Rightarrow> MCPClient \<Rightarrow> MCPClient" where
  "settle p v s =
     (if promises s p = Unsettled then s\<lparr>promises := (promises s)(p := v)\<rparr> else s)"

definition clearTimeout :: "nat \<Rightarrow> MCPClient \<Rightarrow> MCPClient" where
  "clearTimeout t s = s\<lparr>timers := (timers s)(t := None)\<rparr>"

text \<open>\<^verbatim>\<open>`req_${++this.requestIdCounter}_${Date.now()}`\<close>\<close>

definition request_id :: "nat \<Rightarrow> nat \<Rightarrow> string" where
  "request_id n ts = ''req_'' @ show_nat n @ ''_'' @ show_nat ts"

definition generateRequestId :: "MCPClient \<Rightarrow> string \<times> MCPClient" where
  "generateRequestId s =
     (let n = requestIdCounter s + 1
      in (request_id n (now s), s\<lparr>requestIdCounter := n\<rparr>))"

text \<open>
  \<^verbatim>\<open>sendRequest\<close> up to the point where it returns its promise: mint the id, create the
  promise, start the deadline timer, enter the request in the pending table and start
  the POST. The result is the handle of the promise returned.
\<close>

definition sendRequest :: "string \<Rightarrow> jsval \<Rightarrow> MCPClient \<Rightarrow> nat \<times> MCPClient" where
  "sendRequest m ps s =
     (let (requestId, s1) = generateRequestId s;
          rq = \<lparr>req_id = requestId, rpc_method = m, params = ps\<rparr>;
          p = next_promise s1;
          s2 = s1\<lparr>promises := (promises s1)(p := Unsettled), next_promise := p + 1\<rparr>;
          t = next_timer s2;
          s3 = s2\<lparr>timers := (timers s2)(t \<mapsto>
                  \<lparr>due = now s2 + requestTimeout, request = requestId, rejects = p\<rparr>),
                next_timer := t + 1\<rparr>;
          s4 = s3\<lparr>pendingRequests :=
                  AList.update requestId \<lparr>promise = p, timeout = t\<rparr> (pendingRequests s3)\<rparr>
      in (p, s4\<lparr>posts := (posts s4)(p \<mapsto> (rq, t))\<rparr>))"

text \<open>The callback given to \<^verbatim>\<open>setTimeout\<close> in \<^verbatim>\<open>sendRequest\<close>.\<close>

definition timeout_callback :: "string \<Rightarrow> nat \<Rightarrow> MCPClient \<Rightarrow> MCPClient" where
  "timeout_callback requestId p s =
     settle p (Rejected (RequestTimeout requestTimeout))
       (s\<lparr>pendingRequests := AList.delete requestId (pendingRequests s)\<rparr>)"

definition fetchWithTimeout :: "fetch_result \<Rightarrow> nat \<Rightarrow> mcp_error + http_response" where
  "fetchWithTimeout fr timeoutMs =
     (case fr of
        Responds response \<Rightarrow> Inr response
      | Aborts \<Rightarrow> Inl (RequestTimeout timeoutMs)
      | Fails e \<Rightarrow> Inl (Thrown e))"

text \<open>
  \<^verbatim>\<open>postMessage\<close> in two parts. \<open>postMessage_body\<close> is what the \<^verbatim>\<open>try\<close> block obtains from
  the settled \<^verbatim>\<open>fetch\<close>: the decoded body, or the error it raises. \<open>post_settled\<close> is what
  then happens to the client: with a body, the pending entry looked up under the id of
  the request is resolved and removed; with an error, the \<^verbatim>\<open>catch\<close> handler attached in
  \<^verbatim>\<open>sendRequest\<close> clears the captured timer, deletes the entry and rejects the captured
  promise.
\<close>

definition postMessage_body :: "fetch_result \<Rightarrow> mcp_error + jsval" where
  "postMessage_body fr =
     (case fetchWithTimeout fr requestTimeout of
        Inl e \<Rightarrow> Inl e
      | Inr response \<Rightarrow>
          if \<not> ok response then Inl (HttpError (status response) (statusText response))
          else json response)"

definition post_settled ::
  "JSONRPCRequest \<Rightarrow> nat \<Rightarrow> nat \<Rightarrow> fetch_result \<Rightarrow> MCPClient \<Rightarrow> MCPClient" where
  "post_settled rq p t fr s =
     (case postMessage_body fr of
        Inr data \<Rightarrow>
          (case map_of (pendingRequests s) (req_id rq) of
             Some pending \<Rightarrow>
               settle (promise pending) (Resolved data)
                 ((clearTimeout (timeout pending) s)
                    \<lparr>pendingRequests := AList.delete (req_id rq) (pendingRequests s)\<rparr>)
           | None \<Rightarrow> s)
      | Inl error \<Rightarrow>
          settle p (Rejected error)
            ((clearTimeout t s)
               \<lparr>pendingRequests := AList.delete (req_id rq) (pendingRequests s)\<rparr>))"

text \<open>\<^verbatim>\<open>close()\<close>: the loop body over the pending table, then the rest.\<close>

definition close_pending :: "string \<times> PendingRequest \<Rightarrow> MCPClient \<Rightarrow> MCPClient" where
  "close_pending entry s =
     settle (promise (snd entry)) (Rejected ConnectionClosed)
       (clearTimeout (timeout (snd entry)) s)"

definition close :: "MCPClient \<Rightarrow> MCPClient" where
  "close s =
     (let s1 = fold close_pending (pendingRequests s) s;
          s2 = s1\<lparr>pendingRequests := []\<rparr>;
          s3 = (case sseController s2 of
                  Some c \<Rightarrow> s2\<lparr>aborted := (aborted s2)(c := True), sseController := None\<rparr>
                | None \<Rightarrow> s2)
      in s3\<lparr>connected := False\<rparr>)"

text \<open>
  The end of a successful \<^verbatim>\<open>connect()\<close>: a new controller, the event stream started in
  the background with its signal, and \<^verbatim>\<open>connected\<close> set.
\<close>

definition open_stream :: "MCPClient \<Rightarrow> MCPClient" where
  "open_stream s =
     (let c = next_controller s;
          s1 = s\<lparr>sseController := Some c, aborted := (aborted s)(c := False),
                 next_controller := c + 1\<rparr>;
          s2 = s1\<lparr>streams := streams s1 @ [c]\<rparr>
      in s2\<lparr>connected := True\<rparr>)"

text \<open>
  The client runs on one event loop. Everything that changes it is one of these events: a
  call of \<^verbatim>\<open>sendRequest\<close> (from \<^verbatim>\<open>connect\<close>, \<^verbatim>\<open>listTools\<close> or \<^verbatim>\<open>callTool\<close>), a deadline
  timer running, a POST settling, a call of \<^verbatim>\<open>close\<close>, the background stream failing (its
  handler calls \<^verbatim>\<open>close\<close>), the end of a successful \<^verbatim>\<open>connect\<close>, and time passing. A timer
  runs only once it is due, and a POST settles only while it is in flight; \<open>step\<close>
  returns \<open>None\<close> for an event that cannot happen in the state.
\<close>

datatype event =
    Call_sendRequest string jsval
  | TimerFires nat
  | PostSettles nat fetch_result
  | Call_close
  | StreamFails nat
  | StreamOpens
  | Elapse nat

fun step :: "event \<Rightarrow> MCPClient \<Rightarrow> MCPClient option" where
  "step (Call_sendRequest m ps) s = Some (snd (sendRequest m ps s))"
| "step (TimerFires t) s =
     (case timers s t of
        None \<Rightarrow> None
      | Some task \<Rightarrow>
          if due task \<le> now s
          then Some (timeout_callback (request task) (rejects task)
                       (s\<lparr>timers := (timers s)(t := None)\<rparr>))
          else None)"
| "step (PostSettles p fr) s =
     (case posts s p of
        None \<Rightarrow> None
      | Some (rq, t) \<Rightarrow> Some (post_settled rq p t fr (s\<lparr>posts := (posts s)(p := None)\<rparr>)))"
| "step Call_close s = Some (close s)"
| "step (StreamFails c) s = (if c \<in> set (streams s) then Some (close s) else None)"
| "step StreamOpens s = Some (open_stream s)"
| "step (Elapse d) s = Some (s\<lparr>now := now s + d\<rparr>)"

fun run :: "event list \<Rightarrow> MCPClient \<Rightarrow> MCPClient option" where
  "run [] s = Some s"
| "run (ev # evs) s = (case step ev s of None \<Rightarrow> None | Some s' \<Rightarrow> run evs s')"

text \<open>The ids minted by \<^verbatim>\<open>generateRequestId\<close> along a run, in order.\<close>

fun minted :: "event list \<Rightarrow> MCPClient \<Rightarrow> string list" where
  "minted [] s = []"
| "minted (ev # evs) s =
     (case step ev s of
        None \<Rightarrow> []
      | Some s' \<Rightarrow>
          (case ev of Call_sendRequest m ps \<Rightarrow> [fst (generateRequestId s)] | _ \<Rightarrow> [])
          @ minted evs s')"

text \<open>
  An event that leaves the request with promise \<open>p\<close> and timer \<open>t\<close> alone: not the
  settling of its POST, not its deadline timer, not a \<^verbatim>\<open>close\<close>.
\<close>

fun quiet :: "nat \<Rightarrow> nat \<Rightarrow> event \<Rightarrow> bool" where
  "quiet p t (PostSettles p' fr) = (p' \<noteq> p)"
| "quiet p t (TimerFires t') = (t' \<noteq> t)"
| "quiet p t Call_close = False"
| "quiet p t (StreamFails c) = False"
| "quiet p t _ = True"

subsection \<open>Awaiting a request; \<^verbatim>\<open>connect\<close> and \<^verbatim>\<open>listTools\<close>\<close>

text \<open>
  A caller that awaits the promise of a request resumes when the promise settles. What
  settles it is decided by the environment and the deadline. With \<open>Settles d fr\<close> the
  \<^verbatim>\<open>fetch\<close> of the POST comes to \<open>fr\<close> after \<open>d\<close> milliseconds: if the deadline timer of
  the request is not yet due then, the POST settles first; if it is due by then, the
  timer has run first, at its due time, and the caller resumes with its rejection (the
  late POST stays in flight). With \<open>Silent d\<close> nothing comes back at all and the timer
  runs \<open>d\<close> milliseconds after it is due. \<open>await\<close> gives the settled value and the
  client at that moment, and \<open>None\<close> if the promise is not settled then: the caller would
  wait forever.
\<close>

datatype fate = Settles nat fetch_result | Silent nat

definition await_events :: "nat \<Rightarrow> fate \<Rightarrow> MCPClient \<Rightarrow> event list" where
  "await_events p f s =
     (case posts s p of
        None \<Rightarrow> []
      | Some (rq, t) \<Rightarrow>
          (case timers s t of
             None \<Rightarrow> (case f of Settles d fr \<Rightarrow> [Elapse d, PostSettles p fr] | Silent d \<Rightarrow> [])
           | Some task \<Rightarrow>
               (case f of
                  Settles d fr \<Rightarrow>
                    if due task \<le> now s + d
                    then [Elapse (due task - now s), TimerFires t]
                    else [Elapse d, PostSettles p fr]
                | Silent d \<Rightarrow> [Elapse (due task - now s + d), TimerFires t])))"

definition await :: "nat \<Rightarrow> fate \<Rightarrow> MCPClient \<Rightarrow> ((mcp_error + jsval) \<times> MCPClient) option" where
  "await p f s =
     (case run (await_events p f s) s of
        None \<Rightarrow> None
      | Some s' \<Rightarrow>
          (case promises s' p of
             Unsettled \<Rightarrow> None
           | Resolved v \<Rightarrow> Some (Inr v, s')
           | Rejected e \<Rightarrow> Some (Inl e, s')))"


text \<open>
  What the servers do during one \<^verbatim>\<open>connect()\<close>: how long the health check takes and what
  its \<^verbatim>\<open>fetch\<close> comes to, and the fate of the \<^verbatim>\<open>initialize\<close> request.
\<close>

record connect_world =
  health_after :: nat
  health :: fetch_result
  initialize :: fate

definition init_params :: jsval where
  "init_params =
     Obj [(''protocolVersion'', Str ''2024-11-05''),
          (''capabilities'', Obj []),
          (''clientInfo'', Obj [(''name'', Str ''mcp-client-ts''), (''version'', Str ''1.0.0'')])]"

text \<open>
  \<^verbatim>\<open>connect()\<close>. Every error raised inside the \<^verbatim>\<open>try\<close> block passes through the \<^verbatim>\<open>catch\<close>
  block, which calls \<^verbatim>\<open>close()\<close> and raises it again; the guard before the \<^verbatim>\<open>try\<close> block
  raises without it.
\<close>

definition connect :: "connect_world \<Rightarrow> MCPClient \<Rightarrow> ((mcp_error + unit) \<times> MCPClient) option" where
  "connect w s =
     (if connected s then Some (Inl AlreadyConnected, s)
      else
        (let s0 = s\<lparr>now := now s + health_after w\<rparr> in
         case fetchWithTimeout (health w) connectTimeout of
           Inl e \<Rightarrow> Some (Inl e, close s0)
         | Inr healthCheck \<Rightarrow>
             if \<not> ok healthCheck
             then Some (Inl (HealthCheckFailed (status healthCheck) (statusText healthCheck)),
                        close s0)
             else
               (let (p, s1) = sendRequest ''initialize'' init_params s0 in
                case await p (initialize w) s1 of
                  None \<Rightarrow> None
                | Some (Inl e, s2) \<Rightarrow> Some (Inl e, close s2)
                | Some (Inr initResponse, s2) \<Rightarrow>
                    (case get_prop initResponse ''error'' of
                       Inl e \<Rightarrow> Some (Inl e, close s2)
                     | Inr err \<Rightarrow>
                         if truthy err
                         then Some (Inl (InitializeFailed (js_get err ''message'')
                                           (js_get err ''code'')), close s2)
                         else Some (Inr (), open_stream s2)))))"


subsection \<open>Well-formed client states\<close>

text \<open>
  The bookkeeping that holds in every state a client can reach. An entry of the pending
  table has an unsettled promise, an active timer that names it, and a POST in flight
  for it; an active timer belongs to an entry of the table; a POST in flight has handles
  and an id that were issued, and its request is either no longer in the table or in it
  under the same promise and timer.
\<close>

abbreviation pend :: "MCPClient \<Rightarrow> string \<Rightarrow> PendingRequest option" where
  "pend s \<equiv> map_of (pendingRequests s)"

definition issued :: "nat \<Rightarrow> string \<Rightarrow> bool" where
  "issued c rid \<longleftrightarrow> (\<exists>n ts. n \<le> c \<and> rid = request_id n ts)"

definition J1 :: "MCPClient \<Rightarrow> bool" where
  "J1 s \<longleftrightarrow> (\<forall>rid pe. pend s rid = Some pe \<longrightarrow>
      promises s (promise pe) = Unsettled \<and>
      (\<exists>D. timers s (timeout pe) = Some \<lparr>due = D, request = rid, rejects = promise pe\<rparr>) \<and>
      (\<exists>rq. posts s (promise pe) = Some (rq, timeout pe) \<and> req_id rq = rid))"

definition J2 :: "MCPClient \<Rightarrow> bool" where
  "J2 s \<longleftrightarrow> (\<forall>t task. timers s t = Some task \<longrightarrow>
      pend s (request task) = Some \<lparr>promise = rejects task, timeout = t\<rparr>)"

definition J3 :: "MCPClient \<Rightarrow> bool" where
  "J3 s \<longleftrightarrow> (\<forall>p rq t. posts s p = Some (rq, t) \<longrightarrow>
      p < next_promise s \<and> t < next_timer s \<and> issued (requestIdCounter s) (req_id rq) \<and>
      (pend s (req_id rq) = None \<or> pend s (req_id rq) = Some \<lparr>promise = p, timeout = t\<rparr>) \<and>
      (\<forall>task. timers s t = Some task \<longrightarrow> request task = req_id rq \<and> rejects task = p))"

definition wf :: "MCPClient \<Rightarrow> bool" where
  "wf s \<longleftrightarrow> J1 s \<and> J2 s \<and> J3 s"

text \<open>A request that is still waiting, and one that is done with.\<close>

definition in_flight :: "string \<Rightarrow> nat \<Rightarrow> nat \<Rightarrow> nat \<Rightarrow> MCPClient \<Rightarrow> bool" where
  "in_flight rid p t D s \<longleftrightarrow>
     (\<exists>rq. posts s p = Some (rq, t) \<and> req_id rq = rid) \<and>
     pend s rid = Some \<lparr>promise = p, timeout = t\<rparr> \<and>
     timers s t = Some \<lparr>due = D, request = rid, rejects = p\<rparr> \<and>
     promises s p = Unsettled"

definition done_with :: "string \<Rightarrow> nat \<Rightarrow> promise_state \<Rightarrow> MCPClient \<Rightarrow> bool" where
  "done_with rid p X s \<longleftrightarrow>
     promises s p = X \<and> X \<noteq> Unsettled \<and> p < next_promise s \<and> pend s rid = None \<and>
     issued (requestIdCounter s) rid"

section \<open>Step orchestrator and event relay (the \<^verbatim>\<open>POST\<close> route handler)\<close>

text \<open>
  Every value thrown inside the handler is an \<^verbatim>\<open>Error\<close> object: the client wraps what it
  raises, and \<^verbatim>\<open>JSON.parse\<close> and property reads raise error objects. An error is its
  message and its stack.
\<close>

record js_error =
  message :: string
  stack :: string

datatype server = CRM | Email

datatype status_state = Idle | Running | Completed | Failed

datatype step_state = StepRunning | StepSuccess | StepError

text \<open>
  The \<^verbatim>\<open>AgentEvent\<close> union: \<open>Status state message ts\<close>, \<open>Step id title state ts data\<close>,
  \<open>Result ts orderId email emailSent message\<close>, \<open>Error ts message details\<close> (the details
  are the stack of the error). \<open>Failed\<close> is the status state \<^verbatim>\<open>"error"\<close>.
\<close>

datatype AgentEvent =
    Status status_state "string option" nat
  | Step string string step_state nat "jsval option"
  | Result nat string jsval bool string
  | Error nat string "string option"

text \<open>
  What the handler does to the outside, in order: frames enqueued on the outbound stream,
  calls made on the two clients, and the closing of the stream controller.
\<close>

datatype effect =
    Enqueue AgentEvent
  | ClientConnect server
  | ClientCallTool server string jsval
  | ClientClose server
  | ControllerClose

text \<open>
  What the handler takes from outside: the successive readings of \<^verbatim>\<open>Date.now()\<close>, how
  each client's \<^verbatim>\<open>connect()\<close> and \<^verbatim>\<open>callTool()\<close> end (an error raised or a value), and the
  built-ins \<^verbatim>\<open>JSON.parse\<close>, string conversion in template literals, the \<^verbatim>\<open>TypeError\<close> the
  engine raises for a property read from \<^verbatim>\<open>undefined\<close> or \<^verbatim>\<open>null\<close>, and the stack it
  records in a new \<^verbatim>\<open>Error\<close>. Enqueueing on the outbound stream is taken to succeed.
\<close>

record world =
  clock :: "nat \<Rightarrow> nat"
  connects :: "server \<Rightarrow> js_error option"
  callTool :: "server \<Rightarrow> string \<Rightarrow> jsval \<Rightarrow> js_error + jsval"
  JSON_parse :: "jsval \<Rightarrow> js_error + jsval"
  String :: "jsval \<Rightarrow> string"
  TypeError_reading :: "jsval \<Rightarrow> string \<Rightarrow> js_error"
  Error_stack :: "string \<Rightarrow> string"

text \<open>The handler's progress: clock readings made so far, and the effects so far.\<close>

record handler =
  reads :: nat
  trace :: "effect list"

definition Date_now :: "world \<Rightarrow> handler \<Rightarrow> nat \<times> handler" where
  "Date_now w h = (clock w (reads h), h\<lparr>reads := reads h + 1\<rparr>)"

definition emit :: "effect \<Rightarrow> handler \<Rightarrow> handler" where
  "emit e h = h\<lparr>trace := trace h @ [e]\<rparr>"

definition sendSSEEvent :: "AgentEvent \<Rightarrow> handler \<Rightarrow> handler" where
  "sendSSEEvent event h = emit (Enqueue event) h"

text \<open>\<^verbatim>\<open>`${name}-${Date.now()}`\<close>\<close>

definition stepId :: "world \<Rightarrow> string \<Rightarrow> handler \<Rightarrow> string \<times> handler" where
  "stepId w name h = (let (t, h1) = Date_now w h in (name @ ''-'' @ show_nat t, h1))"

definition new_Error :: "world \<Rightarrow> string \<Rightarrow> js_error" where
  "new_Error w msg = \<lparr>message = msg, stack = Error_stack w msg\<rparr>"

definition read_prop :: "world \<Rightarrow> jsval \<Rightarrow> string \<Rightarrow> js_error + jsval" where
  "read_prop w v name =
     (if v = Undefined \<or> v = Null then Inl (TypeError_reading w v name)
      else Inr (js_get v name))"

text \<open>\<^verbatim>\<open>v[0]\<close> for a value that is neither \<^verbatim>\<open>undefined\<close> nor \<^verbatim>\<open>null\<close>.\<close>

fun js_first :: "jsval \<Rightarrow> jsval" where
  "js_first (Arr (x # xs)) = x"
| "js_first (Str (c # cs)) = Str [c]"
| "js_first (Obj members) = js_get (Obj members) ''0''"
| "js_first _ = Undefined"

definition read_first :: "world \<Rightarrow> jsval \<Rightarrow> js_error + jsval" where
  "read_first w v =
     (if v = Undefined \<or> v = Null then Inl (TypeError_reading w v ''0'')
      else Inr (js_first v))"

text \<open>\<^verbatim>\<open>toolResult.content[0].text\<close>\<close>

definition content_text :: "world \<Rightarrow> jsval \<Rightarrow> js_error + jsval" where
  "content_text w toolResult =
     (case read_prop w toolResult ''content'' of
        Inl e \<Rightarrow> Inl e
      | Inr content \<Rightarrow>
          (case read_first w content of
             Inl e \<Rightarrow> Inl e
           | Inr item \<Rightarrow> read_prop w item ''text''))"

text \<open>
  The \<^verbatim>\<open>try\<close> block, cut at the source's own comments (Step 1 to Step 4). Each part
  returns \<open>Inl\<close> the error where the source raises, with the handler as it is at that
  point.
\<close>

definition step1 :: "world \<Rightarrow> handler \<Rightarrow> (js_error + unit) \<times> handler" where
  "step1 w h0 =
     (let (connectCrmId, h1) = stepId w ''connect-crm'' h0;
          (t2, h2) = Date_now w h1;
          h3 = sendSSEEvent (Step connectCrmId ''Connecting to CRM server...'' StepRunning t2 None) h2;
          h4 = emit (ClientConnect CRM) h3
      in case connects w CRM of
           Some e \<Rightarrow> (Inl e, h4)
         | None \<Rightarrow>
             (let (t5, h5) = Date_now w h4
              in (Inr (), sendSSEEvent
                    (Step connectCrmId ''Connected to CRM server'' StepSuccess t5 None) h5)))"

definition step2 :: "world \<Rightarrow> string \<Rightarrow> handler \<Rightarrow> (js_error + jsval) \<times> handler" where
  "step2 w orderId h0 =
     (let (fetchEmailId, h1) = stepId w ''fetch-email'' h0;
          (t2, h2) = Date_now w h1;
          h3 = sendSSEEvent
                 (Step fetchEmailId (''Fetching customer email for order #'' @ orderId @ ''...'')
                    StepRunning t2 None) h2;
          args = Obj [(''order_id'', Str orderId)];
          h4 = emit (ClientCallTool CRM ''getCustomerEmail'' args) h3
      in case callTool w CRM ''getCustomerEmail'' args of
           Inl e \<Rightarrow> (Inl e, h4)
         | Inr crmResult \<Rightarrow>
             (case content_text w crmResult of
                Inl e \<Rightarrow> (Inl e, h4)
              | Inr text \<Rightarrow>
                  (case JSON_parse w text of
                     Inl e \<Rightarrow> (Inl e, h4)
                   | Inr emailData \<Rightarrow>
                       (case read_prop w emailData ''email'' of
                          Inl e \<Rightarrow> (Inl e, h4)
                        | Inr customerEmail \<Rightarrow>
                            if \<not> truthy customerEmail
                            then (Inl (new_Error w ''Customer not found for this order ID''), h4)
                            else
                              (let (t5, h5) = Date_now w h4;
                                   h6 = sendSSEEvent
                                          (Step fetchEmailId
                                             (''Found customer email: '' @ String w customerEmail)
                                             StepSuccess t5
                                             (Some (Obj [(''email'', customerEmail)]))) h5;
                                   (t7, h7) = Date_now w h6
                               in (Inr customerEmail,
                                   sendSSEEvent
                                     (Result t7 orderId customerEmail False
                                        ''Customer email retrieved'') h7))))))"

definition step3 :: "world \<Rightarrow> handler \<Rightarrow> (js_error + unit) \<times> handler" where
  "step3 w h0 =
     (let (connectEmailId, h1) = stepId w ''connect-email'' h0;
          (t2, h2) = Date_now w h1;
          h3 = sendSSEEvent
                 (Step connectEmailId ''Connecting to Email server...'' StepRunning t2 None) h2;
          h4 = emit (ClientConnect Email) h3
      in case connects w Email of
           Some e \<Rightarrow> (Inl e, h4)
         | None \<Rightarrow>
             (let (t5, h5) = Date_now w h4
              in (Inr (), sendSSEEvent
                    (Step connectEmailId ''Connected to Email server'' StepSuccess t5 None) h5)))"

definition step4 :: "world \<Rightarrow> string \<Rightarrow> jsval \<Rightarrow> handler \<Rightarrow> (js_error + unit) \<times> handler" where
  "step4 w orderId customerEmail h0 =
     (let (sendEmailId, h1) = stepId w ''send-email'' h0;
          (t2, h2) = Date_now w h1;
          h3 = sendSSEEvent
                 (Step sendEmailId ''Sending shipping confirmation email...'' StepRunning t2 None)
                 h2;
          args = Obj [(''email'', customerEmail),
                      (''order_details'', Obj [(''order_id'', Str orderId)])];
          h4 = emit (ClientCallTool Email ''sendShippingConfirmation'' args) h3
      in case callTool w Email ''sendShippingConfirmation'' args of
           Inl e \<Rightarrow> (Inl e, h4)
         | Inr emailResult \<Rightarrow>
             (case content_text w emailResult of
                Inl e \<Rightarrow> (Inl e, h4)
              | Inr text \<Rightarrow>
                  (case JSON_parse w text of
                     Inl e \<Rightarrow> (Inl e, h4)
                   | Inr emailResponse \<Rightarrow>
                       (case read_prop w emailResponse ''ok'' of
                          Inl e \<Rightarrow> (Inl e, h4)
                        | Inr accepted \<Rightarrow>
                            if truthy accepted then
                              (let msg = js_get emailResponse ''message'';
                                   (t5, h5) = Date_now w h4;
                                   h6 = sendSSEEvent
                                          (Step sendEmailId
                                             (''Shipping confirmation sent: '' @ String w msg)
                                             StepSuccess t5 (Some (Obj [(''message'', msg)]))) h5;
                                   (t7, h7) = Date_now w h6;
                                   h8 = sendSSEEvent
                                          (Result t7 orderId customerEmail True
                                             ''Order processing completed successfully'') h7;
                                   (t9, h9) = Date_now w h8
                               in (Inr (), sendSSEEvent (Status Completed None t9) h9))
                            else (Inl (new_Error w ''Failed to send shipping confirmation''),
                                  h4)))))"

definition try_block :: "world \<Rightarrow> string \<Rightarrow> handler \<Rightarrow> (js_error + unit) \<times> handler" where
  "try_block w orderId h0 =
     (let (t1, h1) = Date_now w h0;
          h2 = sendSSEEvent (Status Running None t1) h1
      in case step1 w h2 of
           (Inl e, h3) \<Rightarrow> (Inl e, h3)
         | (Inr _, h3) \<Rightarrow>
             (case step2 w orderId h3 of
                (Inl e, h4) \<Rightarrow> (Inl e, h4)
              | (Inr customerEmail, h4) \<Rightarrow>
                  (case step3 w h4 of
                     (Inl e, h5) \<Rightarrow> (Inl e, h5)
                   | (Inr _, h5) \<Rightarrow> step4 w orderId customerEmail h5)))"

definition catch_block :: "world \<Rightarrow> js_error \<Rightarrow> handler \<Rightarrow> handler" where
  "catch_block w error h0 =
     (let errorMessage = message error;
          (t1, h1) = Date_now w h0;
          h2 = sendSSEEvent (Error t1 errorMessage (Some (stack error))) h1;
          (t3, h3) = Date_now w h2
      in sendSSEEvent (Status Failed (Some errorMessage) t3) h3)"

definition finally_block :: "handler \<Rightarrow> handler" where
  "finally_block h =
     emit ControllerClose (emit (ClientClose Email) (emit (ClientClose CRM) h))"

text \<open>The \<^verbatim>\<open>start\<close> callback of the stream: all its effects, in order.\<close>

definition start :: "world \<Rightarrow> string \<Rightarrow> effect list" where
  "start w orderId =
     (let h0 = \<lparr>reads = 0, trace = []\<rparr> in
      case try_block w orderId h0 of
        (Inr _, h1) \<Rightarrow> trace (finally_block h1)
      | (Inl error, h1) \<Rightarrow> trace (finally_block (catch_block w error h1)))"

text \<open>The events written to the outbound stream.\<close>

fun enqueued :: "effect list \<Rightarrow> AgentEvent list" where
  "enqueued [] = []"
| "enqueued (Enqueue event # es) = event # enqueued es"
| "enqueued (_ # es) = enqueued es"

definition events :: "handler \<Rightarrow> AgentEvent list" where
  "events h = enqueued (trace h)"

datatype http_reply = BadRequest | EventStream "effect list"

text \<open>\<^verbatim>\<open>POST\<close>, given the \<^verbatim>\<open>orderId\<close> member of the request body.\<close>

definition POST :: "world \<Rightarrow> jsval \<Rightarrow> http_reply" where
  "POST w orderId =
     (case orderId of
        Str s \<Rightarrow> if s = [] then BadRequest else EventStream (start w s)
      | _ \<Rightarrow> BadRequest)"

fun step_in_error :: "AgentEvent \<Rightarrow> bool" where
  "step_in_error (Step i title StepError ts d) = True"
| "step_in_error _ = False"

definition running_only :: "AgentEvent list \<Rightarrow> bool" where
  "running_only new \<longleftrightarrow> (\<exists>i title ts. new = [Step i title StepRunning ts None])"

section \<open>Concrete runs\<close>

text \<open>JSON-RPC replies and servers used to run the client on concrete inputs.\<close>

definition reply_to :: "string \<Rightarrow> jsval \<Rightarrow> http_response" where
  "reply_to rid result =
     \<lparr>ok = True, status = 200, statusText = ''OK'',
      json = Inr (Obj [(''jsonrpc'', Str ''2.0''), (''id'', Str rid), (''result'', result)])\<rparr>"

definition failing_init :: connect_world where
  "failing_init =
     \<lparr>health_after = 3,
      health = Responds \<lparr>ok = True, status = 200, statusText = ''OK'', json = Inr Null\<rparr>,
      initialize = Settles 7 (Responds
        \<lparr>ok = True, status = 200, statusText = ''OK'',
         json = Inr (Obj [(''jsonrpc'', Str ''2.0''), (''id'', Str ''req_1_8''),
                          (''error'', Obj [(''code'', Num (Finite (- 32600) 0)),
                                           (''message'', Str ''Invalid Request'')])])\<rparr>)\<rparr>"




text \<open>
  Scenario A of the specification (both servers answer) and scenario C (the email server
  is unreachable), with \<^verbatim>\<open>JSON.parse\<close> given on the two texts the servers return.
\<close>

definition dq :: string where
  "dq = [CHR 0x22]"

definition crm_text :: string where
  "crm_text = ''{'' @ dq @ ''email'' @ dq @ '': '' @ dq @ ''alice@example.com'' @ dq @ ''}''"

definition email_text :: string where
  "email_text = ''{'' @ dq @ ''ok'' @ dq @ '': true, '' @ dq @ ''message'' @ dq @ '': '' @ dq
     @ ''sent'' @ dq @ ''}''"

definition tool_result :: "string \<Rightarrow> jsval" where
  "tool_result text = Obj [(''content'', Arr [Obj [(''type'', Str ''text''), (''text'', Str text)]])]"

definition scenario_parse :: "jsval \<Rightarrow> js_error + jsval" where
  "scenario_parse v =
     (if v = Str crm_text then Inr (Obj [(''email'', Str ''alice@example.com'')])
      else if v = Str email_text then Inr (Obj [(''ok'', Bool True), (''message'', Str ''sent'')])
      else Inl \<lparr>message = ''Unexpected token'', stack = ''SyntaxError''\<rparr>)"

fun scenario_String :: "jsval \<Rightarrow> string" where
  "scenario_String (Str s) = s"
| "scenario_String _ = ''[object Object]''"

definition scenario_A :: world where
  "scenario_A =
     \<lparr>clock = (\<lambda>k. 100 + k),
      connects = (\<lambda>srv. None),
      callTool = (\<lambda>srv name args.
        if srv = CRM then Inr (tool_result crm_text) else Inr (tool_result email_text)),
      JSON_parse = scenario_parse,
      String = scenario_String,
      TypeError_reading =
        (\<lambda>v name. \<lparr>message = ''Cannot read properties'', stack = ''TypeError''\<rparr>),
      Error_stack = (\<lambda>msg. ''Error: '' @ msg)\<rparr>"

definition scenario_C :: world where
  "scenario_C =
     scenario_A\<lparr>connects := (\<lambda>srv.
       if srv = Email then Some \<lparr>message = ''fetch failed'', stack = ''TypeError: fetch failed''\<rparr>
       else None)\<rparr>"

section \<open>Frame parser: properties\<close>

lemma split_nl_not_Nil: "split_nl s \<noteq> []"
  by (induction s) (auto split: list.splits)

lemma parse_lines_frame:
  assumes "\<forall>l \<in> set ls. trim l \<noteq> []" and "trim b = []"
  shows "parse_lines cur (ls @ [b]) =
    (let c = (case filter is_data_line ls of [] \<Rightarrow> cur | d # ds \<Rightarrow> payload (last (d # ds)))
     in if c \<noteq> [] then [c] else [])"
  using assms
proof (induction ls arbitrary: cur)
  case Nil
  then show ?case by simp
next
  case (Cons l ls)
  then have nb: "trim l \<noteq> []" and rest: "\<forall>l \<in> set ls. trim l \<noteq> []" by simp_all
  show ?case
  proof (cases "is_data_line l")
    case True
    then have "parse_lines cur ((l # ls) @ [b]) = parse_lines (payload l) (ls @ [b])"
      using nb by (simp add: is_data_line_def payload_def)
    also have "\<dots> = (let c = (case filter is_data_line ls of [] \<Rightarrow> payload l
                                 | d # ds \<Rightarrow> payload (last (d # ds)))
                     in if c \<noteq> [] then [c] else [])"
      using Cons.IH [OF rest Cons.prems(2)] .
    finally show ?thesis using True by (simp split: list.splits)
  next
    case False
    then have "parse_lines cur ((l # ls) @ [b]) = parse_lines cur (ls @ [b])"
      using nb by (simp add: is_data_line_def)
    then show ?thesis using Cons.IH [OF rest Cons.prems(2)] False by simp
  qed
qed

text \<open>
  C1. Read as the claim states it, a frame must come out once however its text is cut
  into chunks. The loop variable \<^verbatim>\<open>currentData\<close> is local to one \<^verbatim>\<open>parse\<close> call, so a frame
  whose data line is completed by one chunk and whose blank line arrives in the next is
  lost: fed whole, the frame \<^verbatim>\<open>data: foo\<close> reaches the callback once; cut after the data
  line's newline, it never does.
\<close>

theorem parse_split_frame_dropped:
  "snd (feed new_SSEParser [''data: foo\<newline>\<newline>'']) = [''foo''] \<and>
   snd (feed new_SSEParser [''data: foo\<newline>'', ''\<newline>'']) = []"
  by (simp add: new_SSEParser_def parse_def js_whitespace_def trim_def startsWith_def
      substring_def)

text \<open>
  C9, as stated, fails when the last data-prefixed line carries an empty payload: the
  blank line then finds \<^verbatim>\<open>currentData\<close> empty and the callback is not called at all.
\<close>

theorem parse_last_data_line_empty:
  "snd (parse new_SSEParser ''data: a\<newline>data:\<newline>\<newline>'') = []"
  by (simp add: new_SSEParser_def parse_def js_whitespace_def trim_def startsWith_def
      substring_def)

text \<open>
  C9, amended. Let the buffered text followed by the chunk split into non-blank lines
  \<open>ls\<close>, of which two or more are data-prefixed, then a blank line \<open>b\<close>, then the
  unterminated remainder \<open>rest\<close>. If the payload of the last data-prefixed line is not
  empty, the callback is called exactly once, with that payload alone: the payloads of the
  earlier data lines are discarded. If it is empty the callback is not called. The
  remainder stays in the buffer.
\<close>

theorem parse_keeps_last_data_line:
  assumes "split_nl (buffer p @ chunk) = ls @ [b, rest]"
    and "\<forall>l \<in> set ls. trim l \<noteq> []"
    and "trim b = []"
    and "2 \<le> length (filter is_data_line ls)"
  shows "parse p chunk =
    (p\<lparr>buffer := rest\<rparr>,
     if payload (last (filter is_data_line ls)) \<noteq> []
     then [payload (last (filter is_data_line ls))] else [])"
proof -
  have bl: "butlast (ls @ [b, rest]) = ls @ [b]"
    by (simp add: butlast_append)
  obtain d ds where ds: "filter is_data_line ls = d # ds"
    using assms(4) by (cases "filter is_data_line ls") auto
  have "parse_lines [] (ls @ [b]) =
        (if payload (last (d # ds)) \<noteq> [] then [payload (last (d # ds))] else [])"
    using parse_lines_frame [OF assms(2,3), of "[]"] ds by (simp add: Let_def)
  then show ?thesis
    using assms(1) bl ds by (simp add: parse_def Let_def)
qed

theorem parse_keeps_last_data_line_witness:
  "parse new_SSEParser ''data: a\<newline>data: b\<newline>\<newline>tail'' =
     (\<lparr>buffer = ''tail''\<rparr>, [''b''])"
proof -
  have ws: "js_whitespace (CHR ''\<newline>'')" "js_whitespace (CHR '' '')"
    "\<not> js_whitespace (CHR ''d'')" "\<not> js_whitespace (CHR ''a'')"
    "\<not> js_whitespace (CHR ''b'')" "\<not> js_whitespace (CHR '':'')"
    by (simp_all add: js_whitespace_def)
  have sp: "split_nl (buffer new_SSEParser @ ''data: a\<newline>data: b\<newline>\<newline>tail'') =
            [''data: a'', ''data: b''] @ ['''', ''tail'']"
    by (simp add: new_SSEParser_def)
  have nb: "\<forall>l \<in> set [''data: a'', ''data: b'']. trim l \<noteq> []"
    by (simp add: trim_def ws)
  have b: "trim '''' = []"
    by (simp add: trim_def)
  have two: "2 \<le> length (filter is_data_line [''data: a'', ''data: b''])"
    by (simp add: is_data_line_def trim_def startsWith_def ws)
  show ?thesis
    using parse_keeps_last_data_line [OF sp nb b two]
    by (simp add: new_SSEParser_def is_data_line_def payload_def trim_def startsWith_def
        substring_def ws)
qed

section \<open>Decimal text: request ids are injective\<close>

lemma digit_inj: "a < 10 \<Longrightarrow> b < 10 \<Longrightarrow> digit a = digit b \<Longrightarrow> a = b"
proof -
  assume "a < 10" "b < 10" "digit a = digit b"
  have d: "distinct ''0123456789''" by simp
  show ?thesis using \<open>a < 10\<close> \<open>b < 10\<close> \<open>digit a = digit b\<close> d
    unfolding digit_def by (simp add: nth_eq_iff_index_eq)
qed

lemma digit_not_underscore: "d < 10 \<Longrightarrow> digit d \<noteq> CHR ''_''"
proof -
  assume "d < 10"
  then have "digit d \<in> set ''0123456789''"
    unfolding digit_def using nth_mem [of d "''0123456789''"] by simp
  then show ?thesis by auto
qed

lemma show_nat_not_Nil: "show_nat n \<noteq> []"
  by (subst show_nat.simps) simp

lemma show_nat_no_underscore: "CHR ''_'' \<notin> set (show_nat n)"
proof (induction n rule: show_nat.induct)
  case (1 n)
  show ?case
  proof (cases "n < 10")
    case True
    then show ?thesis using digit_not_underscore [of n] by (subst show_nat.simps) auto
  next
    case False
    then show ?thesis using 1 digit_not_underscore [of "n mod 10"]
      by (subst show_nat.simps) auto
  qed
qed

lemma show_nat_inj: "show_nat n = show_nat m \<Longrightarrow> n = m"
proof (induction n arbitrary: m rule: show_nat.induct)
  case (1 n)
  show ?case
  proof (cases "n < 10")
    case n: True
    show ?thesis
    proof (cases "m < 10")
      case True
      then show ?thesis using n 1(2) digit_inj [of n m]
        by (simp add: show_nat.simps [of n] show_nat.simps [of m])
    next
      case False
      then show ?thesis using n 1(2) show_nat_not_Nil [of "m div 10"]
        by (simp add: show_nat.simps [of n] show_nat.simps [of m])
    qed
  next
    case n: False
    show ?thesis
    proof (cases "m < 10")
      case True
      then show ?thesis using n 1(2) show_nat_not_Nil [of "n div 10"]
        by (simp add: show_nat.simps [of n] show_nat.simps [of m])
    next
      case False
      then have "show_nat (n div 10) = show_nat (m div 10)" "digit (n mod 10) = digit (m mod 10)"
        using n 1(2) by (simp_all add: show_nat.simps [of n] show_nat.simps [of m])
      then have "n div 10 = m div 10" "n mod 10 = m mod 10"
        using 1(1) [OF n] digit_inj [of "n mod 10" "m mod 10"] by auto
      then show ?thesis by (metis div_mult_mod_eq)
    qed
  qed
qed

lemma underscore_split:
  assumes "xs @ CHR ''_'' # ys = xs' @ CHR ''_'' # ys'"
    and "CHR ''_'' \<notin> set xs" and "CHR ''_'' \<notin> set xs'"
  shows "xs = xs'"
  using assms
proof (induction xs arbitrary: xs')
  case Nil
  then show ?case by (cases xs') auto
next
  case (Cons a xs)
  then show ?case by (cases xs') auto
qed

lemma show_nat_digit: "n < 10 \<Longrightarrow> show_nat n = [digit n]"
  by (simp add: show_nat.simps)

lemma show_nat_3digits:
  "n < 10 \<Longrightarrow> show_nat n = [digit n]"
  "10 \<le> n \<Longrightarrow> show_nat n = show_nat (n div 10) @ [digit (n mod 10)]"
  by (simp_all add: show_nat.simps [of n])

lemma request_id_inj: "request_id n ts = request_id n' ts' \<Longrightarrow> n = n'"
  unfolding request_id_def
  using underscore_split [of "show_nat n" "show_nat ts" "show_nat n'" "show_nat ts'"]
    show_nat_no_underscore show_nat_inj by auto

lemma request_id_eq_iff [simp]:
  "request_id n ts = request_id n' ts' \<longleftrightarrow> n = n' \<and> ts = ts'"
proof
  assume a: "request_id n ts = request_id n' ts'"
  then have n: "n = n'" by (rule request_id_inj)
  with a have "show_nat ts = show_nat ts'" by (simp add: request_id_def)
  then show "n = n' \<and> ts = ts'" using n show_nat_inj by blast
qed simp

lemma request_id_1_5: "request_id (Suc 0) 5 = ''req_1_5''"
  by (simp add: request_id_def show_nat_digit digit_def)

section \<open>Protocol client: the bookkeeping is preserved\<close>

lemma settle_promises:
  "promises (settle p v s) = (if promises s p = Unsettled then (promises s)(p := v) else promises s)"
  by (simp add: settle_def)

lemma settle_fields [simp]:
  "timers (settle p v s) = timers s" "posts (settle p v s) = posts s"
  "pendingRequests (settle p v s) = pendingRequests s"
  "next_promise (settle p v s) = next_promise s" "next_timer (settle p v s) = next_timer s"
  "requestIdCounter (settle p v s) = requestIdCounter s"
  "connected (settle p v s) = connected s" "sseController (settle p v s) = sseController s"
  "now (settle p v s) = now s" "aborted (settle p v s) = aborted s"
  "streams (settle p v s) = streams s" "next_controller (settle p v s) = next_controller s"
  by (simp_all add: settle_def)

lemma clearTimeout_fields [simp]:
  "timers (clearTimeout t s) = (timers s)(t := None)" "posts (clearTimeout t s) = posts s"
  "pendingRequests (clearTimeout t s) = pendingRequests s"
  "promises (clearTimeout t s) = promises s"
  "next_promise (clearTimeout t s) = next_promise s" "next_timer (clearTimeout t s) = next_timer s"
  "requestIdCounter (clearTimeout t s) = requestIdCounter s"
  "connected (clearTimeout t s) = connected s" "sseController (clearTimeout t s) = sseController s"
  "now (clearTimeout t s) = now s" "aborted (clearTimeout t s) = aborted s"
  "streams (clearTimeout t s) = streams s" "next_controller (clearTimeout t s) = next_controller s"
  by (simp_all add: clearTimeout_def)

lemma sendRequest_eq:
  "sendRequest m ps s =
    (next_promise s,
     s\<lparr>requestIdCounter := requestIdCounter s + 1,
       promises := (promises s)(next_promise s := Unsettled),
       next_promise := next_promise s + 1,
       timers := (timers s)(next_timer s \<mapsto>
          \<lparr>due = now s + requestTimeout,
            request = request_id (requestIdCounter s + 1) (now s),
            rejects = next_promise s\<rparr>),
       next_timer := next_timer s + 1,
       pendingRequests := AList.update (request_id (requestIdCounter s + 1) (now s))
          \<lparr>promise = next_promise s, timeout = next_timer s\<rparr> (pendingRequests s),
       posts := (posts s)(next_promise s \<mapsto>
          (\<lparr>req_id = request_id (requestIdCounter s + 1) (now s), rpc_method = m, params = ps\<rparr>,
           next_timer s))\<rparr>)"
  by (simp add: sendRequest_def generateRequestId_def Let_def)

lemma sendRequest_parts:
  assumes "sendRequest m ps s0 = (p, s1)"
  shows "p = next_promise s0" "s1 = snd (sendRequest m ps s0)"
    "fst (generateRequestId s0) = request_id (Suc (requestIdCounter s0)) (now s0)"
proof -
  show "p = next_promise s0" using assms by (simp add: sendRequest_eq)
  show "s1 = snd (sendRequest m ps s0)" using assms by simp
  show "fst (generateRequestId s0) = request_id (Suc (requestIdCounter s0)) (now s0)"
    by (simp add: generateRequestId_def Let_def)
qed

lemma issued_fresh: "issued c rid \<Longrightarrow> rid = request_id (Suc c) ts \<Longrightarrow> False"
  unfolding issued_def using request_id_inj by fastforce

lemma issued_mono: "issued c rid \<Longrightarrow> c \<le> c' \<Longrightarrow> issued c' rid"
  unfolding issued_def using le_trans by blast

lemma issued_new: "issued c (request_id c ts)"
  unfolding issued_def by blast

lemma wf_new: "wf (new_MCPClient t0)"
  by (simp add: wf_def J1_def J2_def J3_def new_MCPClient_def)

lemma wf_sendRequest: assumes "wf s" shows "wf (snd (sendRequest m ps s))"
proof -
  let ?rid = "request_id (requestIdCounter s + 1) (now s)"
  have j1: "J1 s" and j2: "J2 s" and j3: "J3 s" using assms by (simp_all add: wf_def)
  have qb: "posts s p = Some (rq, t) \<Longrightarrow> p < next_promise s"
    "posts s p = Some (rq, t) \<Longrightarrow> t < next_timer s"
    "posts s p = Some (rq, t) \<Longrightarrow> issued (requestIdCounter s) (req_id rq)" for p rq t
    using j3 unfolding J3_def by blast+
  have pb: "pend s rid = Some pe \<Longrightarrow> issued (requestIdCounter s) rid"
    "pend s rid = Some pe \<Longrightarrow> promise pe < next_promise s"
    "pend s rid = Some pe \<Longrightarrow> timeout pe < next_timer s" for rid pe
    using j1 j3 unfolding J1_def J3_def by metis+
  have tb: "timers s t = Some task \<Longrightarrow> issued (requestIdCounter s) (request task)"
    "timers s t = Some task \<Longrightarrow> t < next_timer s"
    "timers s t = Some task \<Longrightarrow> rejects task < next_promise s" for t task
    using j2 pb unfolding J2_def by fastforce+
  have "J1 (snd (sendRequest m ps s))"
    unfolding J1_def sendRequest_eq using j1
    by (auto simp: J1_def update_conv' dest: issued_fresh pb)
  moreover have "J2 (snd (sendRequest m ps s))"
    unfolding J2_def sendRequest_eq using j2
    by (auto simp: J2_def update_conv' dest: issued_fresh tb)
  moreover have "J3 (snd (sendRequest m ps s))"
    unfolding J3_def sendRequest_eq using j3
    by (auto simp: J3_def update_conv' issued_new dest: issued_fresh tb qb intro: issued_mono less_SucI)
  ultimately show ?thesis by (simp add: wf_def)
qed

lemma wf_retire:
  assumes "wf s"
    and pe: "pend s rid = Some \<lparr>promise = p, timeout = t\<rparr>"
    and pr: "promises s' = (promises s)(p := v)"
    and pd: "pend s' = (pend s)(rid := None)"
    and tm: "timers s' = (timers s)(t := None)"
    and po: "posts s' = posts s \<or> posts s' = (posts s)(p := None)"
    and nx: "next_promise s' = next_promise s" "next_timer s' = next_timer s"
      "requestIdCounter s' = requestIdCounter s"
  shows "wf s'"
proof -
  have j1: "J1 s" and j2: "J2 s" and j3: "J3 s" using assms(1) by (simp_all add: wf_def)
  obtain D rq where tk: "timers s t = Some \<lparr>due = D, request = rid, rejects = p\<rparr>"
    and pq: "posts s p = Some (rq, t)" "req_id rq = rid"
    using j1 pe unfolding J1_def by fastforce
  have other: "promise pe' \<noteq> p \<and> timeout pe' \<noteq> t"
    if "pend s rid' = Some pe'" "rid' \<noteq> rid" for rid' pe'
    using j1 that tk pq unfolding J1_def by fastforce
  have "J1 s'"
    unfolding J1_def
  proof (intro allI impI)
    fix rid' pe' assume a: "pend s' rid' = Some pe'"
    then have b: "rid' \<noteq> rid" "pend s rid' = Some pe'" using pd by (auto split: if_splits)
    have c: "promise pe' \<noteq> p" "timeout pe' \<noteq> t" using other [OF b(2,1)] by simp_all
    from j1 b(2) have "promises s (promise pe') = Unsettled \<and>
      (\<exists>D. timers s (timeout pe') = Some \<lparr>due = D, request = rid', rejects = promise pe'\<rparr>) \<and>
      (\<exists>rq. posts s (promise pe') = Some (rq, timeout pe') \<and> req_id rq = rid')"
      unfolding J1_def by blast
    then show "promises s' (promise pe') = Unsettled \<and>
      (\<exists>D. timers s' (timeout pe') = Some \<lparr>due = D, request = rid', rejects = promise pe'\<rparr>) \<and>
      (\<exists>rq. posts s' (promise pe') = Some (rq, timeout pe') \<and> req_id rq = rid')"
      using c pr tm po by auto
  qed
  moreover have "J2 s'"
    unfolding J2_def
  proof (intro allI impI)
    fix t' task assume a: "timers s' t' = Some task"
    then have b: "t' \<noteq> t" "timers s t' = Some task" using tm by (auto split: if_splits)
    then have c: "pend s (request task) = Some \<lparr>promise = rejects task, timeout = t'\<rparr>"
      using j2 unfolding J2_def by blast
    then have "request task \<noteq> rid" using pe b(1) by auto
    then show "pend s' (request task) = Some \<lparr>promise = rejects task, timeout = t'\<rparr>"
      using c pd by simp
  qed
  moreover have "J3 s'"
    unfolding J3_def
  proof (intro allI impI)
    fix p' rq' t' assume a: "posts s' p' = Some (rq', t')"
    then have b: "posts s p' = Some (rq', t')" using po by (auto split: if_splits)
    from j3 b have c: "p' < next_promise s \<and> t' < next_timer s \<and>
        issued (requestIdCounter s) (req_id rq') \<and>
        (pend s (req_id rq') = None \<or> pend s (req_id rq') = Some \<lparr>promise = p', timeout = t'\<rparr>) \<and>
        (\<forall>task. timers s t' = Some task \<longrightarrow> request task = req_id rq' \<and> rejects task = p')"
      unfolding J3_def by blast
    then show "p' < next_promise s' \<and> t' < next_timer s' \<and>
        issued (requestIdCounter s') (req_id rq') \<and>
        (pend s' (req_id rq') = None \<or> pend s' (req_id rq') = Some \<lparr>promise = p', timeout = t'\<rparr>) \<and>
        (\<forall>task. timers s' t' = Some task \<longrightarrow> request task = req_id rq' \<and> rejects task = p')"
      using nx pd tm by auto
  qed
  ultimately show ?thesis by (simp add: wf_def)
qed

lemma wf_late:
  assumes "wf s"
    and pq: "posts s p = Some (rq, t)"
    and pe: "pend s (req_id rq) = None"
    and pr: "\<And>q. q \<noteq> p \<Longrightarrow> promises s' q = promises s q"
    and pd: "pend s' = pend s"
    and tm: "timers s' = timers s"
    and po: "posts s' = (posts s)(p := None)"
    and nx: "next_promise s' = next_promise s" "next_timer s' = next_timer s"
      "requestIdCounter s' = requestIdCounter s"
  shows "wf s'"
proof -
  have j1: "J1 s" and j2: "J2 s" and j3: "J3 s" using assms(1) by (simp_all add: wf_def)
  have other: "promise pe' \<noteq> p" if "pend s rid' = Some pe'" for rid' pe'
    using j1 that pq pe unfolding J1_def by fastforce
  have "J1 s'"
    unfolding J1_def
  proof (intro allI impI)
    fix rid' pe' assume a: "pend s' rid' = Some pe'"
    then have b: "pend s rid' = Some pe'" using pd by simp
    have c: "promise pe' \<noteq> p" using other [OF b] .
    from j1 b have "promises s (promise pe') = Unsettled \<and>
      (\<exists>D. timers s (timeout pe') = Some \<lparr>due = D, request = rid', rejects = promise pe'\<rparr>) \<and>
      (\<exists>rq. posts s (promise pe') = Some (rq, timeout pe') \<and> req_id rq = rid')"
      unfolding J1_def by blast
    then show "promises s' (promise pe') = Unsettled \<and>
      (\<exists>D. timers s' (timeout pe') = Some \<lparr>due = D, request = rid', rejects = promise pe'\<rparr>) \<and>
      (\<exists>rq. posts s' (promise pe') = Some (rq, timeout pe') \<and> req_id rq = rid')"
      using c pr [OF c] tm po by auto
  qed
  moreover have "J2 s'"
    using j2 pd tm unfolding J2_def by simp
  moreover have "J3 s'"
    unfolding J3_def
  proof (intro allI impI)
    fix p' rq' t' assume a: "posts s' p' = Some (rq', t')"
    then have b: "posts s p' = Some (rq', t')" using po by (auto split: if_splits)
    from j3 b have c: "p' < next_promise s \<and> t' < next_timer s \<and>
        issued (requestIdCounter s) (req_id rq') \<and>
        (pend s (req_id rq') = None \<or> pend s (req_id rq') = Some \<lparr>promise = p', timeout = t'\<rparr>) \<and>
        (\<forall>task. timers s t' = Some task \<longrightarrow> request task = req_id rq' \<and> rejects task = p')"
      unfolding J3_def by blast
    then show "p' < next_promise s' \<and> t' < next_timer s' \<and>
        issued (requestIdCounter s') (req_id rq') \<and>
        (pend s' (req_id rq') = None \<or> pend s' (req_id rq') = Some \<lparr>promise = p', timeout = t'\<rparr>) \<and>
        (\<forall>task. timers s' t' = Some task \<longrightarrow> request task = req_id rq' \<and> rejects task = p')"
      using nx pd tm by auto
  qed
  ultimately show ?thesis by (simp add: wf_def)
qed

lemma wf_pending_unsettled: "wf s \<Longrightarrow> pend s rid = Some pe \<Longrightarrow> promises s (promise pe) = Unsettled"
  unfolding wf_def J1_def by blast

lemma wf_timer_pending:
  "wf s \<Longrightarrow> timers s t = Some task \<Longrightarrow>
     pend s (request task) = Some \<lparr>promise = rejects task, timeout = t\<rparr>"
  unfolding wf_def J2_def by blast

lemma wf_post_pending:
  "wf s \<Longrightarrow> posts s p = Some (rq, t) \<Longrightarrow>
     pend s (req_id rq) = None \<or> pend s (req_id rq) = Some \<lparr>promise = p, timeout = t\<rparr>"
  unfolding wf_def J3_def by blast

lemma wf_post_timer:
  "wf s \<Longrightarrow> posts s p = Some (rq, t) \<Longrightarrow> pend s (req_id rq) = None \<Longrightarrow> timers s t = None"
proof (rule ccontr)
  assume a: "wf s" "posts s p = Some (rq, t)" "pend s (req_id rq) = None" "timers s t \<noteq> None"
  then obtain task where t: "timers s t = Some task" by auto
  then have "request task = req_id rq" using a(1,2) unfolding wf_def J3_def by blast
  then show False using wf_timer_pending [OF a(1) t] a(3) by simp
qed

lemma wf_timer_step:
  assumes "wf s" and "timers s t = Some task"
  shows "wf (timeout_callback (request task) (rejects task) (s\<lparr>timers := (timers s)(t := None)\<rparr>))"
proof -
  have pe: "pend s (request task) = Some \<lparr>promise = rejects task, timeout = t\<rparr>"
    using wf_timer_pending [OF assms] .
  have un: "promises s (rejects task) = Unsettled"
    using wf_pending_unsettled [OF assms(1) pe] by simp
  show ?thesis
    by (rule wf_retire [OF assms(1) pe, where v = "Rejected (RequestTimeout requestTimeout)"])
      (simp_all add: timeout_callback_def settle_promises un delete_conv')
qed

lemma wf_post_step:
  assumes "wf s" and pq: "posts s p = Some (rq, t)"
  shows "wf (post_settled rq p t fr (s\<lparr>posts := (posts s)(p := None)\<rparr>))"
proof (cases "pend s (req_id rq)")
  case None
  have tn: "timers s t = None" using wf_post_timer [OF assms None] .
  show ?thesis
    by (rule wf_late [OF assms None])
      (auto simp: post_settled_def None settle_promises delete_conv' tn split: sum.splits)
next
  case (Some pe)
  then have pe: "pend s (req_id rq) = Some \<lparr>promise = p, timeout = t\<rparr>"
    using wf_post_pending [OF assms] by simp
  have un: "promises s p = Unsettled"
    using wf_pending_unsettled [OF assms(1) pe] by simp
  show ?thesis
  proof (cases "postMessage_body fr")
    case (Inl e)
    show ?thesis
      by (rule wf_retire [OF assms(1) pe, where v = "Rejected e"])
        (simp_all add: post_settled_def Inl settle_promises un delete_conv')
  next
    case (Inr data)
    show ?thesis
      by (rule wf_retire [OF assms(1) pe, where v = "Resolved data"])
        (simp_all add: post_settled_def Inr pe settle_promises un delete_conv')
  qed
qed

lemma close_pending_fields [simp]:
  "posts (close_pending e s) = posts s"
  "pendingRequests (close_pending e s) = pendingRequests s"
  "next_promise (close_pending e s) = next_promise s"
  "next_timer (close_pending e s) = next_timer s"
  "requestIdCounter (close_pending e s) = requestIdCounter s"
  "connected (close_pending e s) = connected s"
  "sseController (close_pending e s) = sseController s"
  "now (close_pending e s) = now s" "aborted (close_pending e s) = aborted s"
  "streams (close_pending e s) = streams s"
  "next_controller (close_pending e s) = next_controller s"
  "timers (close_pending e s) = (timers s)(timeout (snd e) := None)"
  by (simp_all add: close_pending_def)

lemma fold_close_pending_fields [simp]:
  "posts (fold close_pending al s) = posts s"
  "pendingRequests (fold close_pending al s) = pendingRequests s"
  "next_promise (fold close_pending al s) = next_promise s"
  "next_timer (fold close_pending al s) = next_timer s"
  "requestIdCounter (fold close_pending al s) = requestIdCounter s"
  "connected (fold close_pending al s) = connected s"
  "sseController (fold close_pending al s) = sseController s"
  "now (fold close_pending al s) = now s" "aborted (fold close_pending al s) = aborted s"
  "streams (fold close_pending al s) = streams s"
  "next_controller (fold close_pending al s) = next_controller s"
  by (induction al arbitrary: s; simp)+

lemma fold_close_pending_timers:
  "timers (fold close_pending al s) t =
     (if t \<in> (\<lambda>e. timeout (snd e)) ` set al then None else timers s t)"
  by (induction al arbitrary: s) auto

lemma close_pending_promises:
  "promises (close_pending e s) p =
     (if p = promise (snd e) \<and> promises s p = Unsettled
      then Rejected ConnectionClosed else promises s p)"
  by (auto simp: close_pending_def settle_promises)

lemma fold_close_pending_promises:
  "promises (fold close_pending al s) p =
     (if p \<in> (\<lambda>e. promise (snd e)) ` set al \<and> promises s p = Unsettled
      then Rejected ConnectionClosed else promises s p)"
proof (induction al arbitrary: s)
  case Nil
  then show ?case by simp
next
  case (Cons e al)
  show ?case
    by (simp add: Cons.IH close_pending_promises)
qed

lemma close_fields:
  "connected (close s) = False" "pendingRequests (close s) = []" "sseController (close s) = None"
  "posts (close s) = posts s" "next_promise (close s) = next_promise s"
  "next_timer (close s) = next_timer s" "requestIdCounter (close s) = requestIdCounter s"
  "now (close s) = now s" "streams (close s) = streams s"
  "next_controller (close s) = next_controller s"
  "timers (close s) t = (if t \<in> (\<lambda>e. timeout (snd e)) ` set (pendingRequests s) then None else timers s t)"
  "promises (close s) p =
     (if p \<in> (\<lambda>e. promise (snd e)) ` set (pendingRequests s) \<and> promises s p = Unsettled
      then Rejected ConnectionClosed else promises s p)"
  "aborted (close s) c = (sseController s = Some c \<or> aborted s c)"
  by (simp_all add: close_def Let_def fold_close_pending_timers fold_close_pending_promises
      split: option.splits)

lemma wf_close: assumes "wf s" shows "wf (close s)"
proof -
  have j3: "J3 s" using assms by (simp add: wf_def)
  have tn: "timers (close s) t = None" for t
  proof (cases "timers s t")
    case None
    then show ?thesis by (simp add: close_fields)
  next
    case (Some task)
    from wf_timer_pending [OF assms Some]
    have "(request task, \<lparr>promise = rejects task, timeout = t\<rparr>) \<in> set (pendingRequests s)"
      by (rule map_of_SomeD)
    then have "t \<in> (\<lambda>e. timeout (snd e)) ` set (pendingRequests s)" by force
    then show ?thesis by (simp add: close_fields)
  qed
  have "J1 (close s)" by (simp add: J1_def close_fields)
  moreover have "J2 (close s)" by (simp add: J2_def tn)
  moreover have "J3 (close s)"
    using j3 unfolding J3_def by (simp add: close_fields tn)
  ultimately show ?thesis by (simp add: wf_def)
qed

lemma wf_cong:
  assumes "pendingRequests s' = pendingRequests s" "timers s' = timers s" "posts s' = posts s"
    "promises s' = promises s" "next_promise s' = next_promise s"
    "next_timer s' = next_timer s" "requestIdCounter s' = requestIdCounter s"
  shows "wf s' = wf s"
  by (simp add: wf_def J1_def J2_def J3_def assms)

lemma wf_open_stream: "wf s \<Longrightarrow> wf (open_stream s)"
  by (subst wf_cong [of _ s]) (simp_all add: open_stream_def Let_def)

lemma wf_elapse: "wf s \<Longrightarrow> wf (s\<lparr>now := now s + d\<rparr>)"
  by (subst wf_cong [of _ s]) simp_all

lemma wf_step: "wf s \<Longrightarrow> step ev s = Some s' \<Longrightarrow> wf s'"
proof (cases ev)
  case (Call_sendRequest m ps)
  assume "wf s" "step ev s = Some s'"
  then show ?thesis using wf_sendRequest [of s m ps] Call_sendRequest by auto
next
  case (TimerFires t)
  assume "wf s" "step ev s = Some s'"
  then show ?thesis using wf_timer_step [of s t] TimerFires
    by (auto split: option.splits if_splits)
next
  case (PostSettles p fr)
  assume "wf s" "step ev s = Some s'"
  then show ?thesis using wf_post_step [of s p] PostSettles
    by (auto split: option.splits)
next
  case Call_close
  assume "wf s" "step ev s = Some s'"
  then show ?thesis using wf_close [of s] Call_close by auto
next
  case (StreamFails c)
  assume "wf s" "step ev s = Some s'"
  then show ?thesis using wf_close [of s] StreamFails by (auto split: if_splits)
next
  case StreamOpens
  assume "wf s" "step ev s = Some s'"
  then show ?thesis using wf_open_stream [of s] StreamOpens by auto
next
  case (Elapse d)
  assume "wf s" "step ev s = Some s'"
  then show ?thesis using wf_elapse [of s d] Elapse by auto
qed

lemma wf_run: "wf s \<Longrightarrow> run evs s = Some s' \<Longrightarrow> wf s'"
  by (induction evs arbitrary: s) (auto split: option.splits dest: wf_step)

lemma wf_reach: "run evs (new_MCPClient t0) = Some s \<Longrightarrow> wf s"
  using wf_run [OF wf_new] .

lemma wf_post_bounds:
  "wf s \<Longrightarrow> posts s p = Some (rq, t) \<Longrightarrow>
     p < next_promise s \<and> t < next_timer s \<and> issued (requestIdCounter s) (req_id rq)"
  unfolding wf_def J3_def by blast

lemma wf_post_task:
  "wf s \<Longrightarrow> posts s p = Some (rq, t) \<Longrightarrow> timers s t = Some task \<Longrightarrow>
     request task = req_id rq \<and> rejects task = p"
  unfolding wf_def J3_def by blast

lemma wf_pending_post:
  "wf s \<Longrightarrow> pend s rid = Some pe \<Longrightarrow>
     \<exists>rq. posts s (promise pe) = Some (rq, timeout pe) \<and> req_id rq = rid"
  unfolding wf_def J1_def by blast

lemma step_distinct_pending:
  "distinct (map fst (pendingRequests s)) \<Longrightarrow> step ev s = Some s' \<Longrightarrow>
     distinct (map fst (pendingRequests s'))"
  by (cases ev)
    (auto simp: sendRequest_eq timeout_callback_def post_settled_def close_fields open_stream_def
      Let_def distinct_update distinct_delete split: option.splits if_splits sum.splits)

lemma run_distinct_pending:
  "distinct (map fst (pendingRequests s)) \<Longrightarrow> run evs s = Some s' \<Longrightarrow>
     distinct (map fst (pendingRequests s'))"
  by (induction evs arbitrary: s) (auto split: option.splits dest: step_distinct_pending)

subsection \<open>A waiting request is left alone by the events of other requests\<close>

lemma in_flight_sendRequest:
  assumes "wf s" and "in_flight rid p t D s"
  shows "in_flight rid p t D (snd (sendRequest m ps s))"
proof -
  obtain rq where pq: "posts s p = Some (rq, t)" "req_id rq = rid"
    using assms(2) unfolding in_flight_def by blast
  have b: "p < next_promise s" "t < next_timer s" "issued (requestIdCounter s) rid"
    using wf_post_bounds [OF assms(1) pq(1)] pq(2) by simp_all
  have ne: "rid \<noteq> request_id (Suc (requestIdCounter s)) (now s)"
    using issued_fresh [OF b(3)] by blast
  show ?thesis
    using assms(2) b(1,2) ne unfolding in_flight_def sendRequest_eq
    by (auto simp: update_conv')
qed

lemma in_flight_timer:
  assumes "wf s" and "in_flight rid p t D s" and "t' \<noteq> t" and tk: "timers s t' = Some task"
  shows "in_flight rid p t D
           (timeout_callback (request task) (rejects task) (s\<lparr>timers := (timers s)(t' := None)\<rparr>))"
proof -
  have pe: "pend s (request task) = Some \<lparr>promise = rejects task, timeout = t'\<rparr>"
    using wf_timer_pending [OF assms(1) tk] .
  have pr: "pend s rid = Some \<lparr>promise = p, timeout = t\<rparr>"
    and pq: "\<exists>rq. posts s p = Some (rq, t) \<and> req_id rq = rid"
    using assms(2) unfolding in_flight_def by blast+
  have n1: "request task \<noteq> rid" using pe pr assms(3) by auto
  have n2: "rejects task \<noteq> p"
    using wf_pending_post [OF assms(1) pe] pq assms(3) by auto
  show ?thesis
    using assms(2,3) n1 n2 unfolding in_flight_def
    by (auto simp: timeout_callback_def settle_promises delete_conv')
qed

lemma in_flight_post:
  assumes "wf s" and "in_flight rid p t D s" and "p' \<noteq> p" and pq': "posts s p' = Some (rq', t')"
  shows "in_flight rid p t D (post_settled rq' p' t' fr (s\<lparr>posts := (posts s)(p' := None)\<rparr>))"
proof -
  have pr: "pend s rid = Some \<lparr>promise = p, timeout = t\<rparr>"
    and tk: "timers s t = Some \<lparr>due = D, request = rid, rejects = p\<rparr>"
    using assms(2) unfolding in_flight_def by blast+
  have n1: "t' \<noteq> t" using wf_post_task [OF assms(1) pq', of "\<lparr>due = D, request = rid, rejects = p\<rparr>"] tk assms(3) by auto
  have n2: "req_id rq' \<noteq> rid" using wf_post_pending [OF assms(1) pq'] pr assms(3) by auto
  have pe': "pend s (req_id rq') = Some pe \<Longrightarrow> pe = \<lparr>promise = p', timeout = t'\<rparr>" for pe
    using wf_post_pending [OF assms(1) pq'] by auto
  show ?thesis
    using assms(2,3) n1 n2 unfolding in_flight_def
    by (auto simp: post_settled_def settle_promises delete_conv' split: sum.splits option.splits
        dest!: pe')
qed

lemma in_flight_step:
  assumes "wf s" and "in_flight rid p t D s" and "quiet p t ev" and "step ev s = Some s'"
  shows "in_flight rid p t D s'"
proof (cases ev)
  case (Call_sendRequest m ps)
  then show ?thesis using in_flight_sendRequest [OF assms(1,2), of m ps] assms(4) by auto
next
  case (TimerFires t')
  then show ?thesis using in_flight_timer [OF assms(1,2), of t'] assms(3,4)
    by (auto split: option.splits if_splits)
next
  case (PostSettles p' fr)
  then show ?thesis using in_flight_post [OF assms(1,2), of p'] assms(3,4)
    by (auto split: option.splits)
next
  case Call_close
  then show ?thesis using assms(3) by simp
next
  case (StreamFails c)
  then show ?thesis using assms(3) by simp
next
  case StreamOpens
  then show ?thesis using assms(2,4) by (auto simp: in_flight_def open_stream_def Let_def)
next
  case (Elapse d)
  then show ?thesis using assms(2,4) by (auto simp: in_flight_def)
qed

lemma in_flight_run:
  "wf s \<Longrightarrow> in_flight rid p t D s \<Longrightarrow> \<forall>ev \<in> set evs. quiet p t ev \<Longrightarrow> run evs s = Some s' \<Longrightarrow>
     wf s' \<and> in_flight rid p t D s'"
proof (induction evs arbitrary: s)
  case Nil
  then show ?case by simp
next
  case (Cons ev evs)
  from Cons.prems(4) obtain s1 where s1: "step ev s = Some s1" "run evs s1 = Some s'"
    by (auto split: option.splits)
  have "wf s1" using wf_step [OF Cons.prems(1) s1(1)] .
  moreover have "in_flight rid p t D s1"
    using in_flight_step [OF Cons.prems(1,2) _ s1(1)] Cons.prems(3) by simp
  ultimately show ?case using Cons.IH [of s1] Cons.prems(3) s1(2) by simp
qed

lemma in_flight_after_send:
  "in_flight (request_id (Suc (requestIdCounter s)) (now s)) (next_promise s) (next_timer s)
     (now s + requestTimeout) (snd (sendRequest m ps s))"
  unfolding in_flight_def sendRequest_eq by (simp add: update_conv')

subsection \<open>A settled request stays settled\<close>

lemma done_with_step:
  assumes "done_with rid p X s" and "step ev s = Some s'"
  shows "done_with rid p X s'"
proof (cases ev)
  case (Call_sendRequest m ps)
  have "rid \<noteq> request_id (Suc (requestIdCounter s)) (now s)"
    using assms(1) issued_fresh unfolding done_with_def by blast
  then show ?thesis using assms Call_sendRequest unfolding done_with_def
    by (auto simp: sendRequest_eq update_conv' intro: issued_mono)
next
  case (TimerFires t')
  then show ?thesis using assms unfolding done_with_def
    by (auto simp: timeout_callback_def settle_promises delete_conv'
        split: option.splits if_splits)
next
  case (PostSettles p' fr)
  then show ?thesis using assms unfolding done_with_def
    by (auto simp: post_settled_def settle_promises delete_conv'
        split: option.splits if_splits sum.splits)
next
  case Call_close
  then show ?thesis using assms unfolding done_with_def by (auto simp: close_fields)
next
  case (StreamFails c)
  then show ?thesis using assms unfolding done_with_def
    by (auto simp: close_fields split: if_splits)
next
  case StreamOpens
  then show ?thesis using assms unfolding done_with_def by (auto simp: open_stream_def Let_def)
next
  case (Elapse d)
  then show ?thesis using assms unfolding done_with_def by auto
qed

lemma done_with_run: "done_with rid p X s \<Longrightarrow> run evs s = Some s' \<Longrightarrow> done_with rid p X s'"
  by (induction evs arbitrary: s) (auto split: option.splits dest: done_with_step)

subsection \<open>Minted ids\<close>

lemma step_counter_mono: "step ev s = Some s' \<Longrightarrow> requestIdCounter s \<le> requestIdCounter s'"
  by (cases ev)
    (auto simp: sendRequest_eq timeout_callback_def post_settled_def close_fields open_stream_def
      Let_def split: option.splits if_splits sum.splits)

lemma minted_above:
  "rid \<in> set (minted evs s) \<Longrightarrow> \<exists>n ts. requestIdCounter s < n \<and> rid = request_id n ts"
proof (induction evs arbitrary: s)
  case Nil
  then show ?case by simp
next
  case (Cons ev evs)
  from Cons.prems obtain s' where st: "step ev s = Some s'"
    by (cases "step ev s") auto
  have mono: "requestIdCounter s \<le> requestIdCounter s'" using step_counter_mono [OF st] .
  from Cons.prems st consider
    (hd) m ps where "ev = Call_sendRequest m ps" "rid = fst (generateRequestId s)"
    | (tl) "rid \<in> set (minted evs s')"
    by (auto split: event.splits)
  then show ?case
  proof cases
    case hd
    then show ?thesis by (auto simp: generateRequestId_def Let_def)
  next
    case tl
    then obtain n ts where "requestIdCounter s' < n" "rid = request_id n ts"
      using Cons.IH by blast
    then have "requestIdCounter s < n" using mono by simp
    then show ?thesis using \<open>rid = request_id n ts\<close> by blast
  qed
qed

lemma distinct_minted: "distinct (minted evs s)"
proof (induction evs arbitrary: s)
  case Nil
  then show ?case by simp
next
  case (Cons ev evs)
  show ?case
  proof (cases "step ev s")
    case None
    then show ?thesis by simp
  next
    case (Some s')
    show ?thesis
    proof (cases ev)
      case (Call_sendRequest m ps)
      have s': "requestIdCounter s' = Suc (requestIdCounter s)"
        using Some Call_sendRequest by (auto simp: sendRequest_eq)
      have "fst (generateRequestId s) \<notin> set (minted evs s')"
      proof
        assume "fst (generateRequestId s) \<in> set (minted evs s')"
        then obtain n ts where "requestIdCounter s' < n" "fst (generateRequestId s) = request_id n ts"
          using minted_above by blast
        then show False using s' by (simp add: generateRequestId_def Let_def)
      qed
      then show ?thesis using Some Call_sendRequest Cons.IH [of s'] by simp
    qed (use Some Cons.IH [of s'] in simp_all)
  qed
qed




section \<open>Protocol client: properties\<close>

text \<open>
  C4. Take any state a client can reach, send a request from it, and let anything happen
  afterwards except the settling of that request's POST, its own deadline timer and a
  \<^verbatim>\<open>close\<close> (the endpoint never responds). Then the promise is still unsettled; the
  deadline timer can run exactly when the clock has reached the sending time plus the
  configured duration, so never before the deadline; when it runs, the promise is
  rejected with the timeout error naming \<open>requestTimeout\<close> and the request leaves the
  pending table; and whatever happens later (a late response, a late error, a \<^verbatim>\<open>close\<close>,
  new requests) the promise keeps that rejection and the id stays out of the table.
\<close>

theorem sendRequest_timeout:
  assumes reach: "run evs0 (new_MCPClient t0) = Some s0"
    and send: "sendRequest m ps s0 = (p, s1)"
    and quiet: "\<forall>ev \<in> set evs. quiet p (next_timer s0) ev"
    and run: "run evs s1 = Some s2"
  shows "promises s2 p = Unsettled \<and>
    (step (TimerFires (next_timer s0)) s2 \<noteq> None \<longleftrightarrow> now s0 + requestTimeout \<le> now s2) \<and>
    (\<forall>s3. step (TimerFires (next_timer s0)) s2 = Some s3 \<longrightarrow>
       promises s3 p = Rejected (RequestTimeout requestTimeout) \<and>
       map_of (pendingRequests s3) (fst (generateRequestId s0)) = None \<and>
       (\<forall>evs' s4. run evs' s3 = Some s4 \<longrightarrow>
          promises s4 p = Rejected (RequestTimeout requestTimeout) \<and>
          map_of (pendingRequests s4) (fst (generateRequestId s0)) = None))"
proof -
  let ?rid = "request_id (Suc (requestIdCounter s0)) (now s0)"
  let ?t = "next_timer s0"
  let ?D = "now s0 + requestTimeout"
  note sp = sendRequest_parts [OF send]
  have wf1: "wf s1" using wf_sendRequest [OF wf_reach [OF reach], of m ps] sp(2) by simp
  have fl1: "in_flight ?rid p ?t ?D s1"
    using in_flight_after_send [of s0 m ps] sp(1,2) by simp
  have wf2: "wf s2" and fl2: "in_flight ?rid p ?t ?D s2"
    using in_flight_run [OF wf1 fl1 quiet run] by simp_all
  have tk: "timers s2 ?t = Some \<lparr>due = ?D, request = ?rid, rejects = p\<rparr>"
    and un: "promises s2 p = Unsettled"
    using fl2 unfolding in_flight_def by blast+
  obtain rq where pq: "posts s2 p = Some (rq, ?t)" "req_id rq = ?rid"
    using fl2 unfolding in_flight_def by blast
  have en: "step (TimerFires ?t) s2 \<noteq> None \<longleftrightarrow> ?D \<le> now s2"
    using tk by simp
  have after: "promises s3 p = Rejected (RequestTimeout requestTimeout) \<and>
       pend s3 ?rid = None \<and>
       (\<forall>evs' s4. run evs' s3 = Some s4 \<longrightarrow>
          promises s4 p = Rejected (RequestTimeout requestTimeout) \<and> pend s4 ?rid = None)"
    if st: "step (TimerFires ?t) s2 = Some s3" for s3
  proof -
    have s3: "s3 = timeout_callback ?rid p (s2\<lparr>timers := (timers s2)(?t := None)\<rparr>)"
      using st tk by (auto split: if_splits)
    have dw: "done_with ?rid p (Rejected (RequestTimeout requestTimeout)) s3"
      using un wf_post_bounds [OF wf2 pq(1)] pq(2)
      unfolding done_with_def s3
      by (simp add: timeout_callback_def settle_promises delete_conv')
    have "done_with ?rid p (Rejected (RequestTimeout requestTimeout)) s4"
      if "run evs' s3 = Some s4" for evs' s4
      using done_with_run [OF dw that] .
    then show ?thesis using dw unfolding done_with_def by blast
  qed
  show ?thesis using un en after sp(3) by simp
qed

text \<open>
  A run of C4: a request sent at time 5, ten seconds pass, the timer runs, and the POST
  is then aborted by \<^verbatim>\<open>fetchWithTimeout\<close> (a late error).
\<close>

theorem sendRequest_timeout_witness:
  "\<exists>s2 s3 s4.
     run [Elapse 10000] (snd (sendRequest ''tools/list'' (Obj []) (new_MCPClient 5))) = Some s2 \<and>
     step (TimerFires 0) s2 = Some s3 \<and>
     run [PostSettles 0 Aborts] s3 = Some s4 \<and>
     promises s2 0 = Unsettled \<and>
     promises s3 0 = Rejected (RequestTimeout 10000) \<and>
     promises s4 0 = Rejected (RequestTimeout 10000) \<and>
     map_of (pendingRequests s4) (request_id 1 5) = None"
proof -
  let ?s0 = "new_MCPClient 5"
  let ?s1 = "snd (sendRequest ''tools/list'' (Obj []) ?s0)"
  have h1: "run [] (new_MCPClient 5) = Some ?s0" by simp
  have h2: "sendRequest ''tools/list'' (Obj []) ?s0 = (0, ?s1)"
    by (simp add: sendRequest_eq new_MCPClient_def)
  have h3: "\<forall>ev \<in> set [Elapse 10000]. quiet 0 (next_timer ?s0) ev" by simp
  obtain s2 where h4: "run [Elapse 10000] ?s1 = Some s2" by simp
  note T = sendRequest_timeout [OF h1 h2 h3 h4]
  have t0: "next_timer ?s0 = 0" and rid: "fst (generateRequestId ?s0) = request_id 1 5"
    by (simp_all add: new_MCPClient_def generateRequestId_def)
  have "now ?s0 + requestTimeout \<le> now s2"
    using h4 by (auto simp: sendRequest_eq new_MCPClient_def requestTimeout_def)
  then obtain s3 where s3: "step (TimerFires 0) s2 = Some s3"
    using T t0 by auto
  have "posts s3 0 \<noteq> None"
    using h4 s3 by (auto simp: sendRequest_eq new_MCPClient_def timeout_callback_def
        requestTimeout_def split: option.splits if_splits)
  then obtain s4 where s4: "run [PostSettles 0 Aborts] s3 = Some s4"
    by (auto split: option.splits)
  have a: "promises s2 0 = Unsettled" using T by blast
  have b: "promises s3 0 = Rejected (RequestTimeout requestTimeout) \<and>
       (\<forall>evs' s4. run evs' s3 = Some s4 \<longrightarrow>
          promises s4 0 = Rejected (RequestTimeout requestTimeout) \<and>
          map_of (pendingRequests s4) (request_id 1 5) = None)"
    using T s3 unfolding t0 rid by blast
  then have c: "promises s4 0 = Rejected (RequestTimeout requestTimeout) \<and>
          map_of (pendingRequests s4) (request_id 1 5) = None"
    using s4 by blast
  show ?thesis
    using h4 s3 s4 a b c unfolding requestTimeout_def by blast
qed

text \<open>
  C5. In every state a client can reach (never connected, connected, closed) \<^verbatim>\<open>close()\<close>
  is defined: no statement of it can raise, and the model is a total function. After it
  the pending table is empty, the client is not connected and holds no controller; the
  controller it held is aborted, which cancels the background read; every request that
  was in the table had an unsettled promise, which is now rejected with
  \<open>ConnectionClosed\<close>, and its timer is cleared. Closing again changes nothing.
\<close>

theorem close_teardown:
  assumes "run evs (new_MCPClient t0) = Some s"
  shows "pendingRequests (close s) = [] \<and> \<not> connected (close s) \<and>
    sseController (close s) = None \<and>
    (\<forall>c. sseController s = Some c \<longrightarrow> aborted (close s) c) \<and>
    (\<forall>(rid, pending) \<in> set (pendingRequests s).
       promises s (promise pending) = Unsettled \<and>
       promises (close s) (promise pending) = Rejected ConnectionClosed \<and>
       timers (close s) (timeout pending) = None) \<and>
    close (close s) = close s"
proof -
  have wf: "wf s" using wf_reach [OF assms] .
  have di: "distinct (map fst (pendingRequests s))"
    using run_distinct_pending [OF _ assms] by (simp add: new_MCPClient_def)
  have un: "promises s (promise pending) = Unsettled"
    if "(rid, pending) \<in> set (pendingRequests s)" for rid pending
    using wf_pending_unsettled [OF wf map_of_is_SomeI [OF di that]] .
  have rj: "promises (close s) (promise pending) = Rejected ConnectionClosed \<and>
            timers (close s) (timeout pending) = None"
    if "(rid, pending) \<in> set (pendingRequests s)" for rid pending
    using un [OF that] that by (force simp: close_fields)
  have idem: "close (close s) = close s"
    by (simp add: close_def Let_def split: option.splits)
  have a: "pendingRequests (close s) = [] \<and> \<not> connected (close s) \<and>
    sseController (close s) = None \<and>
    (\<forall>c. sseController s = Some c \<longrightarrow> aborted (close s) c)"
    by (simp add: close_fields)
  have b: "\<forall>(rid, pending) \<in> set (pendingRequests s).
       promises s (promise pending) = Unsettled \<and>
       promises (close s) (promise pending) = Rejected ConnectionClosed \<and>
       timers (close s) (timeout pending) = None"
    using un rj by blast
  show ?thesis using a b idem by blast
qed

text \<open>A run of C5: a connected client with one request pending.\<close>

theorem close_teardown_witness:
  "\<exists>s. run [StreamOpens, Call_sendRequest ''tools/list'' (Obj [])] (new_MCPClient 5) = Some s \<and>
     connected s \<and> sseController s = Some 0 \<and>
     pendingRequests s = [(''req_1_5'', \<lparr>promise = 0, timeout = 0\<rparr>)] \<and>
     promises s 0 = Unsettled \<and>
     promises (close s) 0 = Rejected ConnectionClosed \<and> timers (close s) 0 = None \<and>
     pendingRequests (close s) = [] \<and> \<not> connected (close s) \<and>
     sseController (close s) = None \<and> aborted (close s) 0 \<and> close (close s) = close s"
proof -
  obtain s where s: "run [StreamOpens, Call_sendRequest ''tools/list'' (Obj [])] (new_MCPClient 5) = Some s"
    by simp
  have f: "connected s" "sseController s = Some 0"
    "pendingRequests s = [(''req_1_5'', \<lparr>promise = 0, timeout = 0\<rparr>)]"
    using s by (auto simp: sendRequest_eq new_MCPClient_def open_stream_def Let_def request_id_1_5)
  from close_teardown [OF s] f s show ?thesis by simp
qed






text \<open>
  C8. The ids minted along any run of a client are pairwise distinct. And a request sent
  from any reachable state, whatever else is sent, settles or times out in between (other
  requests, in any order), is resolved with the body of the reply to its own POST when
  that reply arrives; the reply carries the id of the request, so the promise holds the
  response whose id is its own, and keeps it whatever happens later.
\<close>

theorem requests_correlated:
  assumes reach: "run evs0 (new_MCPClient t0) = Some s0"
    and send: "sendRequest m ps s0 = (p, s1)"
    and quiet: "\<forall>ev \<in> set evs. quiet p (next_timer s0) ev"
    and run: "run evs s1 = Some s2"
    and reply: "ok r" "json r = Inr data" "js_get data ''id'' = Str (fst (generateRequestId s0))"
  shows "distinct (minted all_evs (new_MCPClient t0)) \<and>
    (\<exists>s3. step (PostSettles p (Responds r)) s2 = Some s3 \<and>
       promises s3 p = Resolved data \<and>
       (\<forall>evs' s4. run evs' s3 = Some s4 \<longrightarrow>
          (\<exists>v. promises s4 p = Resolved v \<and> v = data \<and>
               js_get v ''id'' = Str (fst (generateRequestId s0)))))"
proof -
  let ?rid = "request_id (Suc (requestIdCounter s0)) (now s0)"
  let ?t = "next_timer s0"
  let ?D = "now s0 + requestTimeout"
  note sp = sendRequest_parts [OF send]
  have wf1: "wf s1" using wf_sendRequest [OF wf_reach [OF reach], of m ps] sp(2) by simp
  have fl1: "in_flight ?rid p ?t ?D s1"
    using in_flight_after_send [of s0 m ps] sp(1,2) by simp
  have wf2: "wf s2" and fl2: "in_flight ?rid p ?t ?D s2"
    using in_flight_run [OF wf1 fl1 quiet run] by simp_all
  have pe: "pend s2 ?rid = Some \<lparr>promise = p, timeout = ?t\<rparr>"
    and un: "promises s2 p = Unsettled"
    using fl2 unfolding in_flight_def by blast+
  obtain rq where pq: "posts s2 p = Some (rq, ?t)" "req_id rq = ?rid"
    using fl2 unfolding in_flight_def by blast
  let ?s3 = "post_settled rq p ?t (Responds r) (s2\<lparr>posts := (posts s2)(p := None)\<rparr>)"
  have body: "postMessage_body (Responds r) = Inr data"
    using reply by (simp add: postMessage_body_def fetchWithTimeout_def)
  have st: "step (PostSettles p (Responds r)) s2 = Some ?s3"
    using pq by simp
  have dw: "done_with ?rid p (Resolved data) ?s3"
    using un pe wf_post_bounds [OF wf2 pq(1)] pq(2)
    unfolding done_with_def
    by (simp add: post_settled_def body settle_promises delete_conv')
  have "promises s4 p = Resolved data" if "run evs' ?s3 = Some s4" for evs' s4
    using done_with_run [OF dw that] unfolding done_with_def by simp
  then show ?thesis
    using st dw distinct_minted reply(3) unfolding done_with_def by auto
qed

text \<open>
  A run of C8: two requests in flight, the second answered first.
\<close>

theorem requests_correlated_witness:
  "\<exists>s2 s3.
     run [Call_sendRequest ''tools/call'' (Obj []),
          PostSettles 1 (Responds (reply_to (request_id 2 5) (Str ''second'')))]
       (snd (sendRequest ''tools/list'' (Obj []) (new_MCPClient 5))) = Some s2 \<and>
     step (PostSettles 0 (Responds (reply_to (request_id 1 5) (Str ''first'')))) s2 = Some s3 \<and>
     promises s3 0 =
       Resolved (Obj [(''jsonrpc'', Str ''2.0''), (''id'', Str (request_id 1 5)),
                      (''result'', Str ''first'')]) \<and>
     distinct (minted [Call_sendRequest ''tools/list'' (Obj []),
                       Call_sendRequest ''tools/call'' (Obj [])] (new_MCPClient 5))"
proof -
  let ?s0 = "new_MCPClient 5"
  let ?s1 = "snd (sendRequest ''tools/list'' (Obj []) ?s0)"
  let ?evs = "[Call_sendRequest ''tools/call'' (Obj []),
          PostSettles 1 (Responds (reply_to (request_id 2 5) (Str ''second'')))]"
  let ?r = "reply_to (request_id 1 5) (Str ''first'')"
  let ?data = "Obj [(''jsonrpc'', Str ''2.0''), (''id'', Str (request_id 1 5)),
                      (''result'', Str ''first'')]"
  have h1: "run [] (new_MCPClient 5) = Some ?s0" by simp
  have h2: "sendRequest ''tools/list'' (Obj []) ?s0 = (0, ?s1)"
    by (simp add: sendRequest_eq new_MCPClient_def)
  have h3: "\<forall>ev \<in> set ?evs. quiet 0 (next_timer ?s0) ev" by simp
  obtain s2 where h4: "run ?evs ?s1 = Some s2"
    by (simp add: sendRequest_eq new_MCPClient_def)
  have h5: "ok ?r" "json ?r = Inr ?data" by (simp_all add: reply_to_def)
  have h6: "js_get ?data ''id'' = Str (fst (generateRequestId ?s0))"
    by (simp add: generateRequestId_def new_MCPClient_def)
  from requests_correlated [OF h1 h2 h3 h4 h5 h6]
  show ?thesis using h4 by blast
qed

text \<open>
  C10. \<^verbatim>\<open>connect()\<close> on a connected client raises \<open>AlreadyConnected\<close> and leaves the client
  exactly as it was: still connected, the pending table, the timers, the promises and the
  stream controller untouched.
\<close>

theorem connect_when_connected:
  assumes "connected s"
  shows "connect w s = Some (Inl AlreadyConnected, s)"
  using assms by (simp add: connect_def)

text \<open>A run of C10 on a client whose stream is open.\<close>

theorem connect_when_connected_witness:
  "connect failing_init (open_stream (new_MCPClient 5)) =
     Some (Inl AlreadyConnected, open_stream (new_MCPClient 5)) \<and>
   connected (open_stream (new_MCPClient 5)) \<and>
   sseController (open_stream (new_MCPClient 5)) = Some 0 \<and>
   \<not> aborted (open_stream (new_MCPClient 5)) 0"
proof -
  have c: "connected (open_stream (new_MCPClient 5))"
    by (simp add: open_stream_def Let_def)
  from connect_when_connected [OF c, of failing_init] c show ?thesis
    by (simp add: open_stream_def Let_def new_MCPClient_def)
qed

section \<open>Step orchestrator: properties\<close>

lemma enqueued_append: "enqueued (xs @ ys) = enqueued xs @ enqueued ys"
  by (induction xs rule: enqueued.induct) simp_all

lemmas handler_defs = stepId_def Date_now_def sendSSEEvent_def emit_def events_def Let_def

lemmas scenario_defs = scenario_A_def scenario_parse_def tool_result_def
  crm_text_def email_text_def dq_def content_text_def read_prop_def read_first_def

lemma step1_shape:
  "step1 w h = (r, h') \<Longrightarrow>
     \<exists>new. events h' = events h @ new \<and> filter step_in_error new = [] \<and>
           (\<forall>e. r = Inl e \<longrightarrow> running_only new)"
  by (auto simp: step1_def handler_defs enqueued_append running_only_def split: option.splits)

lemma step2_shape:
  "step2 w orderId h = (r, h') \<Longrightarrow>
     \<exists>new. events h' = events h @ new \<and> filter step_in_error new = [] \<and>
           (\<forall>e. r = Inl e \<longrightarrow> running_only new)"
  by (auto simp: step2_def handler_defs enqueued_append running_only_def
      split: sum.splits if_splits)

lemma step3_shape:
  "step3 w h = (r, h') \<Longrightarrow>
     \<exists>new. events h' = events h @ new \<and> filter step_in_error new = [] \<and>
           (\<forall>e. r = Inl e \<longrightarrow> running_only new)"
  by (auto simp: step3_def handler_defs enqueued_append running_only_def split: option.splits)

lemma step4_shape:
  "step4 w orderId customerEmail h = (r, h') \<Longrightarrow>
     \<exists>new. events h' = events h @ new \<and> filter step_in_error new = [] \<and>
           (\<forall>e. r = Inl e \<longrightarrow> running_only new)"
  by (auto simp: step4_def handler_defs enqueued_append running_only_def
      split: sum.splits if_splits)

lemma try_block_shape:
  assumes "try_block w orderId h = (r, h')"
  shows "\<exists>pre new. events h' = events h @ pre @ new \<and> filter step_in_error (pre @ new) = [] \<and>
           (\<forall>e. r = Inl e \<longrightarrow> running_only new)"
proof -
  let ?h2 = "sendSSEEvent (Status Running None (clock w (reads h))) (h\<lparr>reads := reads h + 1\<rparr>)"
  have e2: "events ?h2 = events h @ [Status Running None (clock w (reads h))]"
    by (simp add: handler_defs enqueued_append)
  obtain r1 h3 where s1: "step1 w ?h2 = (r1, h3)" by (cases "step1 w ?h2")
  from step1_shape [OF s1] obtain n1 where n1: "events h3 = events ?h2 @ n1"
    "filter step_in_error n1 = []" "\<forall>e. r1 = Inl e \<longrightarrow> running_only n1" by blast
  show ?thesis
  proof (cases r1)
    case (Inl e)
    then have "r = Inl e" "h' = h3" using assms s1 by (simp_all add: try_block_def handler_defs)
    then show ?thesis using n1 e2 Inl
      by (intro exI [of _ "[Status Running None (clock w (reads h))]"] exI [of _ n1]) simp
  next
    case (Inr u)
    obtain r2 h4 where s2: "step2 w orderId h3 = (r2, h4)" by (cases "step2 w orderId h3")
    from step2_shape [OF s2] obtain n2 where n2: "events h4 = events h3 @ n2"
      "filter step_in_error n2 = []" "\<forall>e. r2 = Inl e \<longrightarrow> running_only n2" by blast
    show ?thesis
    proof (cases r2)
      case (Inl e)
      then have "r = Inl e" "h' = h4" using assms s1 s2 Inr
        by (simp_all add: try_block_def handler_defs)
      then show ?thesis using n1 n2 e2 Inl
        by (intro exI [of _ "Status Running None (clock w (reads h)) # n1"] exI [of _ n2]) simp
    next
      case (Inr customerEmail)
      obtain r3 h5 where s3: "step3 w h4 = (r3, h5)" by (cases "step3 w h4")
      from step3_shape [OF s3] obtain n3 where n3: "events h5 = events h4 @ n3"
        "filter step_in_error n3 = []" "\<forall>e. r3 = Inl e \<longrightarrow> running_only n3" by blast
      show ?thesis
      proof (cases r3)
        case (Inl e)
        then have "r = Inl e" "h' = h5" using assms s1 s2 s3 Inr \<open>r1 = Inr u\<close>
          by (simp_all add: try_block_def handler_defs)
        then show ?thesis using n1 n2 n3 e2 Inl
          by (intro exI [of _ "Status Running None (clock w (reads h)) # n1 @ n2"] exI [of _ n3])
            simp
      next
        case (Inr u3)
        have s4: "step4 w orderId customerEmail h5 = (r, h')"
          using assms s1 s2 s3 Inr \<open>r1 = Inr u\<close> \<open>r2 = Inr customerEmail\<close>
          by (simp add: try_block_def handler_defs)
        from step4_shape [OF s4] obtain n4 where n4: "events h' = events h5 @ n4"
          "filter step_in_error n4 = []" "\<forall>e. r = Inl e \<longrightarrow> running_only n4" by blast
        show ?thesis using n1 n2 n3 n4 e2
          by (intro exI [of _ "Status Running None (clock w (reads h)) # n1 @ n2 @ n3"]
              exI [of _ n4]) simp
      qed
    qed
  qed
qed

lemma events_finally [simp]: "events (finally_block h) = events h"
  by (simp add: finally_block_def handler_defs enqueued_append)

lemma events_catch:
  "\<exists>t1 t2. events (catch_block w e h) =
     events h @ [Error t1 (message e) (Some (stack e)), Status Failed (Some (message e)) t2]"
  by (simp add: catch_block_def handler_defs enqueued_append)

lemma filter_catch:
  "filter step_in_error (events (catch_block w e h)) = filter step_in_error (events h)"
  by (simp add: catch_block_def handler_defs enqueued_append)

text \<open>
  C3. When both clients connect, the CRM tool returns a text that parses to a value with a
  truthy \<^verbatim>\<open>email\<close>, and the email tool returns a text that parses to a value with a truthy
  \<^verbatim>\<open>ok\<close>, the events written to the outbound stream are exactly these twelve, in this
  order, with the ids, titles, payloads and clock readings shown: status running; the
  \<^verbatim>\<open>connect-crm\<close> step running, then success under the same id; the \<^verbatim>\<open>fetch-email\<close> step
  running, then success; the partial result; the \<^verbatim>\<open>connect-email\<close> step running, then
  success; the \<^verbatim>\<open>send-email\<close> step running, then success; the final result; status
  completed.
\<close>

theorem successful_run_events:
  assumes "connects w CRM = None"
    and "callTool w CRM ''getCustomerEmail'' (Obj [(''order_id'', Str orderId)]) = Inr crmResult"
    and "content_text w crmResult = Inr text1"
    and "JSON_parse w text1 = Inr emailData"
    and "read_prop w emailData ''email'' = Inr customerEmail"
    and "truthy customerEmail"
    and "connects w Email = None"
    and "callTool w Email ''sendShippingConfirmation''
           (Obj [(''email'', customerEmail),
                 (''order_details'', Obj [(''order_id'', Str orderId)])]) = Inr emailResult"
    and "content_text w emailResult = Inr text2"
    and "JSON_parse w text2 = Inr emailResponse"
    and "read_prop w emailResponse ''ok'' = Inr accepted"
    and "truthy accepted"
  shows "enqueued (start w orderId) =
    [Status Running None (clock w 0),
     Step (''connect-crm-'' @ show_nat (clock w 1)) ''Connecting to CRM server...''
       StepRunning (clock w 2) None,
     Step (''connect-crm-'' @ show_nat (clock w 1)) ''Connected to CRM server''
       StepSuccess (clock w 3) None,
     Step (''fetch-email-'' @ show_nat (clock w 4))
       (''Fetching customer email for order #'' @ orderId @ ''...'') StepRunning (clock w 5) None,
     Step (''fetch-email-'' @ show_nat (clock w 4))
       (''Found customer email: '' @ String w customerEmail) StepSuccess (clock w 6)
       (Some (Obj [(''email'', customerEmail)])),
     Result (clock w 7) orderId customerEmail False ''Customer email retrieved'',
     Step (''connect-email-'' @ show_nat (clock w 8)) ''Connecting to Email server...''
       StepRunning (clock w 9) None,
     Step (''connect-email-'' @ show_nat (clock w 8)) ''Connected to Email server''
       StepSuccess (clock w 10) None,
     Step (''send-email-'' @ show_nat (clock w 11)) ''Sending shipping confirmation email...''
       StepRunning (clock w 12) None,
     Step (''send-email-'' @ show_nat (clock w 11))
       (''Shipping confirmation sent: '' @ String w (js_get emailResponse ''message''))
       StepSuccess (clock w 13) (Some (Obj [(''message'', js_get emailResponse ''message'')])),
     Result (clock w 14) orderId customerEmail True ''Order processing completed successfully'',
     Status Completed None (clock w 15)]"
  by (simp add: start_def try_block_def step1_def step2_def step3_def step4_def
      finally_block_def stepId_def Date_now_def sendSSEEvent_def emit_def Let_def assms
      eval_nat_numeral)

text \<open>Scenario A, run: order \<^verbatim>\<open>XYZ-789\<close>.\<close>

theorem successful_run_events_witness:
  "enqueued (start scenario_A ''XYZ-789'') =
     [Status Running None 100,
      Step ''connect-crm-101'' ''Connecting to CRM server...'' StepRunning 102 None,
      Step ''connect-crm-101'' ''Connected to CRM server'' StepSuccess 103 None,
      Step ''fetch-email-104'' ''Fetching customer email for order #XYZ-789...'' StepRunning 105 None,
      Step ''fetch-email-104'' ''Found customer email: alice@example.com'' StepSuccess 106
        (Some (Obj [(''email'', Str ''alice@example.com'')])),
      Result 107 ''XYZ-789'' (Str ''alice@example.com'') False ''Customer email retrieved'',
      Step ''connect-email-108'' ''Connecting to Email server...'' StepRunning 109 None,
      Step ''connect-email-108'' ''Connected to Email server'' StepSuccess 110 None,
      Step ''send-email-111'' ''Sending shipping confirmation email...'' StepRunning 112 None,
      Step ''send-email-111'' ''Shipping confirmation sent: sent'' StepSuccess 113
        (Some (Obj [(''message'', Str ''sent'')])),
      Result 114 ''XYZ-789'' (Str ''alice@example.com'') True
        ''Order processing completed successfully'',
      Status Completed None 115]"
proof -
  let ?w = scenario_A
  let ?email = "Str ''alice@example.com''"
  let ?reply = "Obj [(''ok'', Bool True), (''message'', Str ''sent'')]"
  have h1: "connects ?w CRM = None" by (simp add: scenario_defs)
  have h2: "callTool ?w CRM ''getCustomerEmail'' (Obj [(''order_id'', Str ''XYZ-789'')]) =
      Inr (tool_result crm_text)" by (simp add: scenario_A_def)
  have h3: "content_text ?w (tool_result crm_text) = Inr (Str crm_text)"
    by (simp add: content_text_def read_prop_def read_first_def tool_result_def)
  have h4: "JSON_parse ?w (Str crm_text) = Inr (Obj [(''email'', ?email)])"
    by (simp add: scenario_A_def scenario_parse_def)
  have h5: "read_prop ?w (Obj [(''email'', ?email)]) ''email'' = Inr ?email"
    by (simp add: read_prop_def)
  have h6: "truthy ?email" by simp
  have h7: "connects ?w Email = None" by (simp add: scenario_defs)
  have h8: "callTool ?w Email ''sendShippingConfirmation''
      (Obj [(''email'', ?email), (''order_details'', Obj [(''order_id'', Str ''XYZ-789'')])]) =
      Inr (tool_result email_text)" by (simp add: scenario_A_def)
  have h9: "content_text ?w (tool_result email_text) = Inr (Str email_text)"
    by (simp add: content_text_def read_prop_def read_first_def tool_result_def)
  have h10: "JSON_parse ?w (Str email_text) = Inr ?reply"
    by (simp add: scenario_A_def scenario_parse_def crm_text_def email_text_def dq_def)
  have h11: "read_prop ?w ?reply ''ok'' = Inr (Bool True)" by (simp add: read_prop_def)
  have h12: "truthy (Bool True)" by simp
  show ?thesis
    using successful_run_events [OF h1 h2 h3 h4 h5 h6 h7 h8 h9 h10 h11 h12]
    by (simp add: scenario_A_def show_nat_3digits digit_def)
qed

text \<open>
  C2, as stated, fails: with the email server unreachable the \<^verbatim>\<open>connect-email\<close> step is
  announced as running and no event ever moves it to the error state; the run ends with
  an \<^verbatim>\<open>error\<close> event and \<^verbatim>\<open>status: error\<close>.
\<close>

theorem failed_phase_counterexample:
  "enqueued (start scenario_C ''XYZ-789'') =
     [Status Running None 100,
      Step ''connect-crm-101'' ''Connecting to CRM server...'' StepRunning 102 None,
      Step ''connect-crm-101'' ''Connected to CRM server'' StepSuccess 103 None,
      Step ''fetch-email-104'' ''Fetching customer email for order #XYZ-789...'' StepRunning 105 None,
      Step ''fetch-email-104'' ''Found customer email: alice@example.com'' StepSuccess 106
        (Some (Obj [(''email'', Str ''alice@example.com'')])),
      Result 107 ''XYZ-789'' (Str ''alice@example.com'') False ''Customer email retrieved'',
      Step ''connect-email-108'' ''Connecting to Email server...'' StepRunning 109 None,
      Error 110 ''fetch failed'' (Some ''TypeError: fetch failed''),
      Status Failed (Some ''fetch failed'') 111]"
  by (simp add: start_def try_block_def step1_def step2_def step3_def catch_block_def
      finally_block_def stepId_def Date_now_def sendSSEEvent_def emit_def Let_def
      scenario_C_def scenario_defs show_nat_3digits digit_def)

text \<open>
  C2, amended. No run writes a step event in the error state. When the guarded sequence
  raises an error, the stream ends with the running step event of the phase that failed,
  then one \<^verbatim>\<open>error\<close> event with the error's message and stack, then \<^verbatim>\<open>status: error\<close> with
  the same message. In particular, when the CRM phases succeed and the email server
  cannot be connected to, the stream is the six events of the CRM phases, the
  \<^verbatim>\<open>connect-email\<close> step running, the \<^verbatim>\<open>error\<close> event and \<^verbatim>\<open>status: error\<close>.
\<close>

theorem failed_phase_events:
  "filter step_in_error (enqueued (start w orderId)) = [] \<and>
   (\<forall>e h. try_block w orderId \<lparr>reads = 0, trace = []\<rparr> = (Inl e, h) \<longrightarrow>
      (\<exists>pre i title ts t1 t2. enqueued (start w orderId) =
         pre @ [Step i title StepRunning ts None,
                Error t1 (message e) (Some (stack e)),
                Status Failed (Some (message e)) t2])) \<and>
   (\<forall>e crmResult text1 emailData customerEmail.
      connects w CRM = None \<and>
      callTool w CRM ''getCustomerEmail'' (Obj [(''order_id'', Str orderId)]) = Inr crmResult \<and>
      content_text w crmResult = Inr text1 \<and> JSON_parse w text1 = Inr emailData \<and>
      read_prop w emailData ''email'' = Inr customerEmail \<and> truthy customerEmail \<and>
      connects w Email = Some e \<longrightarrow>
      enqueued (start w orderId) =
        [Status Running None (clock w 0),
         Step (''connect-crm-'' @ show_nat (clock w 1)) ''Connecting to CRM server...''
           StepRunning (clock w 2) None,
         Step (''connect-crm-'' @ show_nat (clock w 1)) ''Connected to CRM server''
           StepSuccess (clock w 3) None,
         Step (''fetch-email-'' @ show_nat (clock w 4))
           (''Fetching customer email for order #'' @ orderId @ ''...'') StepRunning (clock w 5)
           None,
         Step (''fetch-email-'' @ show_nat (clock w 4))
           (''Found customer email: '' @ String w customerEmail) StepSuccess (clock w 6)
           (Some (Obj [(''email'', customerEmail)])),
         Result (clock w 7) orderId customerEmail False ''Customer email retrieved'',
         Step (''connect-email-'' @ show_nat (clock w 8)) ''Connecting to Email server...''
           StepRunning (clock w 9) None,
         Error (clock w 10) (message e) (Some (stack e)),
         Status Failed (Some (message e)) (clock w 11)])"
proof -
  let ?h0 = "\<lparr>reads = 0, trace = []\<rparr>"
  obtain r h where tb: "try_block w orderId ?h0 = (r, h)" by (cases "try_block w orderId ?h0")
  from try_block_shape [OF tb] obtain pre new where sh: "events h = events ?h0 @ pre @ new"
    "filter step_in_error (pre @ new) = []" "\<forall>e. r = Inl e \<longrightarrow> running_only new" by blast
  have e0: "events ?h0 = []" by (simp add: events_def)
  have a: "filter step_in_error (enqueued (start w orderId)) = []"
  proof (cases r)
    case (Inl e)
    then have "enqueued (start w orderId) = events (catch_block w e h)"
      using tb by (simp add: start_def events_def [symmetric])
    then show ?thesis using sh e0 by (simp add: filter_catch)
  next
    case (Inr u)
    then have "enqueued (start w orderId) = events h"
      using tb by (simp add: start_def events_def [symmetric])
    then show ?thesis using sh e0 by simp
  qed
  have b: "\<exists>pre i title ts t1 t2. enqueued (start w orderId) =
         pre @ [Step i title StepRunning ts None,
                Error t1 (message e) (Some (stack e)),
                Status Failed (Some (message e)) t2]"
    if "try_block w orderId ?h0 = (Inl e, h')" for e h'
  proof -
    have r: "r = Inl e" "h' = h" using that tb by simp_all
    then have st: "enqueued (start w orderId) = events (catch_block w e h)"
      using tb by (simp add: start_def events_def [symmetric])
    obtain i title ts where new: "new = [Step i title StepRunning ts None]"
      using sh(3) r unfolding running_only_def by blast
    obtain t1 t2 where "events (catch_block w e h) =
        events h @ [Error t1 (message e) (Some (stack e)), Status Failed (Some (message e)) t2]"
      using events_catch by blast
    then have "enqueued (start w orderId) = pre @ [Step i title StepRunning ts None,
        Error t1 (message e) (Some (stack e)), Status Failed (Some (message e)) t2]"
      using st sh(1) e0 new by simp
    then show ?thesis by blast
  qed
  have c: "enqueued (start w orderId) =
        [Status Running None (clock w 0),
         Step (''connect-crm-'' @ show_nat (clock w 1)) ''Connecting to CRM server...''
           StepRunning (clock w 2) None,
         Step (''connect-crm-'' @ show_nat (clock w 1)) ''Connected to CRM server''
           StepSuccess (clock w 3) None,
         Step (''fetch-email-'' @ show_nat (clock w 4))
           (''Fetching customer email for order #'' @ orderId @ ''...'') StepRunning (clock w 5)
           None,
         Step (''fetch-email-'' @ show_nat (clock w 4))
           (''Found customer email: '' @ String w customerEmail) StepSuccess (clock w 6)
           (Some (Obj [(''email'', customerEmail)])),
         Result (clock w 7) orderId customerEmail False ''Customer email retrieved'',
         Step (''connect-email-'' @ show_nat (clock w 8)) ''Connecting to Email server...''
           StepRunning (clock w 9) None,
         Error (clock w 10) (message e) (Some (stack e)),
         Status Failed (Some (message e)) (clock w 11)]"
    if "connects w CRM = None"
      "callTool w CRM ''getCustomerEmail'' (Obj [(''order_id'', Str orderId)]) = Inr crmResult"
      "content_text w crmResult = Inr text1" "JSON_parse w text1 = Inr emailData"
      "read_prop w emailData ''email'' = Inr customerEmail" "truthy customerEmail"
      "connects w Email = Some e"
    for e crmResult text1 emailData customerEmail
    by (simp add: start_def try_block_def step1_def step2_def step3_def catch_block_def
        finally_block_def stepId_def Date_now_def sendSSEEvent_def emit_def Let_def that
        eval_nat_numeral)
  show ?thesis using a b c by blast
qed

text \<open>Scenario C, run: the email server refuses the connection.\<close>

theorem failed_phase_events_witness:
  "filter step_in_error (enqueued (start scenario_C ''XYZ-789'')) = [] \<and>
   (\<exists>pre i title ts t1 t2. enqueued (start scenario_C ''XYZ-789'') =
      pre @ [Step i title StepRunning ts None,
             Error t1 ''fetch failed'' (Some ''TypeError: fetch failed''),
             Status Failed (Some ''fetch failed'') t2]) \<and>
   drop 6 (enqueued (start scenario_C ''XYZ-789'')) =
     [Step ''connect-email-108'' ''Connecting to Email server...'' StepRunning 109 None,
      Error 110 ''fetch failed'' (Some ''TypeError: fetch failed''),
      Status Failed (Some ''fetch failed'') 111]"
proof -
  let ?w = scenario_C
  let ?email = "Str ''alice@example.com''"
  let ?e = "\<lparr>message = ''fetch failed'', stack = ''TypeError: fetch failed''\<rparr>"
  note T = failed_phase_events [of ?w "''XYZ-789''"]
  obtain r h where tb: "try_block ?w ''XYZ-789'' \<lparr>reads = 0, trace = []\<rparr> = (r, h)"
    by (cases "try_block ?w ''XYZ-789'' \<lparr>reads = 0, trace = []\<rparr>")
  have "r = Inl ?e"
    using tb
    by (auto simp: try_block_def step1_def step2_def step3_def stepId_def Date_now_def
        sendSSEEvent_def emit_def Let_def scenario_C_def scenario_defs)
  then have a: "\<exists>pre i title ts t1 t2. enqueued (start ?w ''XYZ-789'') =
      pre @ [Step i title StepRunning ts None,
             Error t1 ''fetch failed'' (Some ''TypeError: fetch failed''),
             Status Failed (Some ''fetch failed'') t2]"
    using T tb by fastforce
  have h: "connects ?w CRM = None \<and>
      callTool ?w CRM ''getCustomerEmail'' (Obj [(''order_id'', Str ''XYZ-789'')]) =
        Inr (tool_result crm_text) \<and>
      content_text ?w (tool_result crm_text) = Inr (Str crm_text) \<and>
      JSON_parse ?w (Str crm_text) = Inr (Obj [(''email'', ?email)]) \<and>
      read_prop ?w (Obj [(''email'', ?email)]) ''email'' = Inr ?email \<and> truthy ?email \<and>
      connects ?w Email = Some ?e"
    by (simp add: scenario_A_def scenario_C_def scenario_parse_def content_text_def
        read_prop_def read_first_def tool_result_def)
  have b: "drop 6 (enqueued (start ?w ''XYZ-789'')) =
     [Step ''connect-email-108'' ''Connecting to Email server...'' StepRunning 109 None,
      Error 110 ''fetch failed'' (Some ''TypeError: fetch failed''),
      Status Failed (Some ''fetch failed'') 111]"
  proof -
    from T h have "enqueued (start ?w ''XYZ-789'') =
        [Status Running None (clock ?w 0),
         Step (''connect-crm-'' @ show_nat (clock ?w 1)) ''Connecting to CRM server...''
           StepRunning (clock ?w 2) None,
         Step (''connect-crm-'' @ show_nat (clock ?w 1)) ''Connected to CRM server''
           StepSuccess (clock ?w 3) None,
         Step (''fetch-email-'' @ show_nat (clock ?w 4))
           (''Fetching customer email for order #'' @ ''XYZ-789'' @ ''...'') StepRunning (clock ?w 5)
           None,
         Step (''fetch-email-'' @ show_nat (clock ?w 4))
           (''Found customer email: '' @ String ?w ?email) StepSuccess (clock ?w 6)
           (Some (Obj [(''email'', ?email)])),
         Result (clock ?w 7) ''XYZ-789'' ?email False ''Customer email retrieved'',
         Step (''connect-email-'' @ show_nat (clock ?w 8)) ''Connecting to Email server...''
           StepRunning (clock ?w 9) None,
         Error (clock ?w 10) (message ?e) (Some (stack ?e)),
         Status Failed (Some (message ?e)) (clock ?w 11)]"
      by blast
    then show ?thesis
      by (simp add: scenario_A_def scenario_C_def show_nat_3digits digit_def)
  qed
  show ?thesis using T a b by blast
qed

end
